theory Spec2Isabelle
  imports Complex_Main "HOL-Library.Multiset"
begin

section \<open>JavaScript values used by the worker\<close>

text \<open>
  The repository is one module, \<^verbatim>\<open>src/index.mjs\<close>: a Cloudflare worker
  (\<^verbatim>\<open>handleRequest\<close> and its helpers) and the Durable Object class
  \<^verbatim>\<open>Counter\<close>. Counter values are JavaScript numbers, that is, doubles; the ones
  that occur are integral (they arise from \<^verbatim>\<open>0\<close> by \<^verbatim>\<open>++\<close> and \<^verbatim>\<open>--\<close>), and
  an integral double is modelled by the integer it denotes, in \<^typ>\<open>int\<close>. Strings are
  \<^typ>\<open>string\<close>.
\<close>

subsection \<open>\<^verbatim>\<open>++\<close> and \<^verbatim>\<open>--\<close> on a number\<close>

text \<open>
  Up to the magnitude \<open>2\<^sup>5\<^sup>3\<close> every integer is a double, and adding or subtracting one
  is exact as long as the result stays in that range. Beyond it the doubles are the
  multiples of 2 (below \<open>2\<^sup>5\<^sup>4\<close>), of 4, and so on, and the sum is rounded to the nearest
  double, to the one with the even significand at a tie: from magnitude \<open>2\<^sup>5\<^sup>4\<close> on the
  number stays as it is, and between \<open>2\<^sup>5\<^sup>3\<close> and \<open>2\<^sup>5\<^sup>4\<close> it stays when it is a
  multiple of 4 and moves by 2 otherwise.
\<close>

definition exact_limit :: int where
  "exact_limit = 9007199254740992"

definition pre_increment :: "int \<Rightarrow> int" where
  "pre_increment v =
     (if - exact_limit \<le> v \<and> v < exact_limit then v + 1
      else if 2 * exact_limit \<le> \<bar>v\<bar> then v
      else if v mod 4 = 0 then v
      else v + 2)"

definition pre_decrement :: "int \<Rightarrow> int" where
  "pre_decrement v =
     (if - exact_limit < v \<and> v \<le> exact_limit then v - 1
      else if 2 * exact_limit \<le> \<bar>v\<bar> then v
      else if v mod 4 = 0 then v
      else v - 2)"

text \<open>
  The safe integers (\<^verbatim>\<open>Number.isSafeInteger\<close>): magnitude below \<open>2\<^sup>5\<^sup>3\<close>. On them both
  operations are exact.
\<close>

definition safe_integer :: "int \<Rightarrow> bool" where
  "safe_integer v = (- exact_limit < v \<and> v < exact_limit)"

subsection \<open>String conversion of a number\<close>

definition digit_char :: "nat \<Rightarrow> char" where
  "digit_char d = ''0123456789'' ! d"

fun digits :: "nat \<Rightarrow> string" where
  "digits n = (if n < 10 then [digit_char n] else digits (n div 10) @ [digit_char (n mod 10)])"

declare digits.simps [simp del]

text \<open>\<^verbatim>\<open>String(v)\<close> for an integral number \<open>v\<close> of magnitude up to \<open>2\<^sup>5\<^sup>3\<close>: its
  decimal digits, with a leading minus sign for a negative one. (Beyond that magnitude
  JavaScript prints the shortest digits that identify the double, which this rendering
  does not follow.)\<close>

definition String :: "int \<Rightarrow> string" where
  "String v = (if v < 0 then CHR ''-'' # digits (nat (- v)) else digits (nat v))"

subsection \<open>\<^verbatim>\<open>String.prototype.includes\<close>\<close>

text \<open>\<^verbatim>\<open>s.includes(p)\<close>: \<open>p\<close> occurs in \<open>s\<close> as a contiguous run, at any position.\<close>

fun str_includes :: "string \<Rightarrow> string \<Rightarrow> bool" where
  "str_includes [] p = (p = [])"
| "str_includes (c # cs) p = (take (length p) (c # cs) = p \<or> str_includes cs p)"

section \<open>Responses\<close>

record response =
  status :: nat
  headers :: "(string \<times> string) list"
  body :: string

text \<open>\<^verbatim>\<open>new Response(body)\<close> and \<^verbatim>\<open>new Response(body, {status: n})\<close> with the
  headers the source gives (defaults added by the platform are left out).\<close>

definition new_Response :: "string \<Rightarrow> response" where
  "new_Response b = \<lparr>status = 200, headers = [], body = b\<rparr>"

section \<open>The Durable Object \<^verbatim>\<open>Counter\<close>\<close>

datatype error = StorageFailure

text \<open>
  \<^verbatim>\<open>state.storage\<close> of one object: the entry under the key \<^verbatim>\<open>"value"\<close>, and whether
  the backend rejects writes (the environment's behaviour, fixed per storage).
\<close>

record storage =
  slot :: "int option"
  put_fails :: bool

definition storage_get :: "storage \<Rightarrow> int option" where
  "storage_get st = slot st"

definition storage_put :: "storage \<Rightarrow> int \<Rightarrow> error + storage" where
  "storage_put st v = (if put_fails st then Inl StorageFailure else Inr (st\<lparr>slot := Some v\<rparr>))"

record counter =
  this_value :: int
  this_storage :: storage

text \<open>
  The constructor: \<^verbatim>\<open>let stored = await this.state.storage.get("value");
  this.value = stored || 0\<close>. \<^verbatim>\<open>||\<close> yields its right operand when the left one is
  falsy: \<^verbatim>\<open>undefined\<close> (no entry) or \<^verbatim>\<open>0\<close>.
\<close>

definition Counter_constructor :: "storage \<Rightarrow> counter" where
  "Counter_constructor st =
     \<lparr>this_value = (case storage_get st of
                       None \<Rightarrow> 0
                     | Some stored \<Rightarrow> if stored = 0 then 0 else stored),
      this_storage = st\<rparr>"

text \<open>
  \<^verbatim>\<open>Counter.fetch\<close> has one suspension point, the \<^verbatim>\<open>await\<close> on
  \<^verbatim>\<open>storage.put\<close>. The code before it runs without interruption: it reads
  \<^verbatim>\<open>this.value\<close> into \<^verbatim>\<open>currentValue\<close>, switches on the path, and for
  \<^verbatim>\<open>/increment\<close> and \<^verbatim>\<open>/decrement\<close> updates \<^verbatim>\<open>this.value\<close>, copies it to
  \<^verbatim>\<open>currentValue\<close> and hands it to \<^verbatim>\<open>storage.put\<close>. \<^verbatim>\<open>AwaitPut currentValue w\<close>
  is a call suspended there, with its local \<^verbatim>\<open>currentValue\<close> and the value \<open>w\<close>
  given to \<^verbatim>\<open>put\<close>; \<^verbatim>\<open>Return r\<close> is a call that returned without suspending.
\<close>

datatype call = AwaitPut int int | Return response

definition fetch_before_await :: "int \<Rightarrow> string \<Rightarrow> int \<times> call" where
  "fetch_before_await v path =
     (if path = ''/increment''
        then (pre_increment v, AwaitPut (pre_increment v) (pre_increment v))
      else if path = ''/decrement''
        then (pre_decrement v, AwaitPut (pre_decrement v) (pre_decrement v))
      else if path = ''/value'' then (v, Return (new_Response (String v)))
      else (v, Return ((new_Response (''Not found '' @ path))\<lparr>status := 404\<rparr>)))"

text \<open>The code after the \<^verbatim>\<open>await\<close>: \<^verbatim>\<open>return new Response(currentValue)\<close>.\<close>

definition fetch_after_await :: "int \<Rightarrow> response" where
  "fetch_after_await currentValue = new_Response (String currentValue)"

text \<open>
  One call run from start to end with nothing in between, as it runs when the object
  handles one request at a time. A rejected \<^verbatim>\<open>put\<close> makes \<^verbatim>\<open>fetch\<close> throw after
  \<^verbatim>\<open>this.value\<close> was updated.
\<close>

definition Counter_fetch :: "counter \<Rightarrow> string \<Rightarrow> counter \<times> (error + response)" where
  "Counter_fetch c path =
     (case fetch_before_await (this_value c) path of
        (v, Return r) \<Rightarrow> (c\<lparr>this_value := v\<rparr>, Inr r)
      | (v, AwaitPut currentValue w) \<Rightarrow>
          (case storage_put (this_storage c) w of
             Inl e \<Rightarrow> (c\<lparr>this_value := v\<rparr>, Inl e)
           | Inr st \<Rightarrow> (c\<lparr>this_value := v, this_storage := st\<rparr>,
                        Inr (fetch_after_await currentValue))))"

text \<open>A sequence of calls on one object, one after the other; the responses are dropped.\<close>

fun fetch_all :: "counter \<Rightarrow> string list \<Rightarrow> counter" where
  "fetch_all c [] = c"
| "fetch_all c (path # paths) = fetch_all (fst (Counter_fetch c path)) paths"

section \<open>Concurrent calls on one object\<close>

text \<open>
  JavaScript runs one piece of code at a time and switches only at an \<^verbatim>\<open>await\<close>, so
  concurrent calls of \<^verbatim>\<open>Counter.fetch\<close> on one object interleave as whole segments:
  \<^verbatim>\<open>Deliver path\<close> runs a new call up to its \<^verbatim>\<open>await\<close> (or to its
  \<^verbatim>\<open>return\<close>), \<^verbatim>\<open>PutDone\<close> completes the oldest outstanding \<^verbatim>\<open>storage.put\<close>
  (the storage applies writes in the order they were issued) and resumes the call that
  awaits it. Calls are numbered in the order of their delivery.
\<close>

record durable_object =
  obj :: counter
  inflight :: "(nat \<times> int \<times> int) list"
  results :: "(nat \<times> (error + response)) list"
  delivered :: nat

datatype event = Deliver string | PutDone

fun step :: "event \<Rightarrow> durable_object \<Rightarrow> durable_object option" where
  "step (Deliver path) s =
     (case fetch_before_await (this_value (obj s)) path of
        (v, Return r) \<Rightarrow>
          Some (s\<lparr>obj := (obj s)\<lparr>this_value := v\<rparr>,
                  results := results s @ [(delivered s, Inr r)],
                  delivered := Suc (delivered s)\<rparr>)
      | (v, AwaitPut currentValue w) \<Rightarrow>
          Some (s\<lparr>obj := (obj s)\<lparr>this_value := v\<rparr>,
                  inflight := inflight s @ [(delivered s, currentValue, w)],
                  delivered := Suc (delivered s)\<rparr>))"
| "step PutDone s =
     (case inflight s of
        [] \<Rightarrow> None
      | (i, currentValue, w) # rest \<Rightarrow>
          (case storage_put (this_storage (obj s)) w of
             Inl e \<Rightarrow> Some (s\<lparr>inflight := rest, results := results s @ [(i, Inl e)]\<rparr>)
           | Inr st \<Rightarrow>
               Some (s\<lparr>obj := (obj s)\<lparr>this_storage := st\<rparr>,
                       inflight := rest,
                       results := results s @ [(i, Inr (fetch_after_await currentValue))]\<rparr>)))"

fun run :: "event list \<Rightarrow> durable_object \<Rightarrow> durable_object option" where
  "run [] s = Some s"
| "run (e # es) s = (case step e s of None \<Rightarrow> None | Some s' \<Rightarrow> run es s')"

text \<open>An object with no call in progress.\<close>

definition idle :: "counter \<Rightarrow> durable_object" where
  "idle c = \<lparr>obj = c, inflight = [], results = [], delivered = 0\<rparr>"

text \<open>
  Activation. The constructor passes its initialisation to
  \<^verbatim>\<open>state.blockConcurrencyWhile\<close>, which (as the comment in the constructor says)
  delivers no request until the initialisation completes. Until then the object is
  \<^verbatim>\<open>Initializing\<close> and \<^verbatim>\<open>this.value\<close> is not set.
\<close>

datatype counter_instance = Initializing storage | Ready durable_object

datatype lifecycle_event = InitDone | Ev event

fun step_instance :: "lifecycle_event \<Rightarrow> counter_instance \<Rightarrow> counter_instance option" where
  "step_instance InitDone (Initializing st) = Some (Ready (idle (Counter_constructor st)))"
| "step_instance InitDone (Ready s) = None"
| "step_instance (Ev e) (Initializing st) = None"
| "step_instance (Ev e) (Ready s) = map_option Ready (step e s)"

fun run_instance :: "lifecycle_event list \<Rightarrow> counter_instance \<Rightarrow> counter_instance option" where
  "run_instance [] i = Some i"
| "run_instance (e # es) i =
     (case step_instance e i of None \<Rightarrow> None | Some i' \<Rightarrow> run_instance es i')"

text \<open>The responses an instance has given so far, oldest first.\<close>

fun responses :: "counter_instance \<Rightarrow> (error + response) list" where
  "responses (Initializing st) = []"
| "responses (Ready s) = map snd (results s)"

section \<open>The worker\<close>

definition BASE_PATH :: string where "BASE_PATH = ''/abtest''"
definition CONTROL_PATH :: string where "CONTROL_PATH = BASE_PATH @ ''/control''"
definition VARIANT_PATH :: string where "VARIANT_PATH = BASE_PATH @ ''/variant''"
definition ACTION_PATH :: string where "ACTION_PATH = BASE_PATH @ ''/action''"
definition RESULT_PATH :: string where "RESULT_PATH = BASE_PATH @ ''/result''"

definition COUNTER_CONTROL_SHOW :: string where "COUNTER_CONTROL_SHOW = ''control-show''"
definition COUNTER_CONTROL_ACTION :: string where "COUNTER_CONTROL_ACTION = ''control-action''"
definition COUNTER_VARIANT_SHOW :: string where "COUNTER_VARIANT_SHOW = ''variant-show''"
definition COUNTER_VARIANT_ACTION :: string where "COUNTER_VARIANT_ACTION = ''variant-action''"

definition COOKIE_NAME :: string where "COOKIE_NAME = ''cloudflare_ab_test''"

text \<open>
  Of a request the worker reads \<^verbatim>\<open>new URL(request.url).pathname\<close> and
  \<^verbatim>\<open>request.headers.get("cookie")\<close>, which is \<^verbatim>\<open>null\<close> without such a header.
\<close>

record request =
  pathname :: string
  cookie :: "string option"

subsection \<open>Cookie helpers\<close>

text \<open>
  \<^verbatim>\<open>cookie && cookie.includes(...)\<close> is falsy for \<^verbatim>\<open>null\<close> and for the empty
  string, and the result of \<^verbatim>\<open>includes\<close> otherwise. The callers only test truthiness.
\<close>

definition hasControlCookie :: "request \<Rightarrow> bool" where
  "hasControlCookie request =
     (case cookie request of
        None \<Rightarrow> False
      | Some c \<Rightarrow> c \<noteq> [] \<and> str_includes c (COOKIE_NAME @ ''=control''))"

definition hasVariantCookie :: "request \<Rightarrow> bool" where
  "hasVariantCookie request =
     (case cookie request of
        None \<Rightarrow> False
      | Some c \<Rightarrow> c \<noteq> [] \<and> str_includes c (COOKIE_NAME @ ''=variant''))"

definition actionNotCountedCookie :: "request \<Rightarrow> bool" where
  "actionNotCountedCookie request =
     (case cookie request of
        None \<Rightarrow> False
      | Some c \<Rightarrow> c \<noteq> [] \<and> \<not> str_includes c ''cloudflare_ab_test_counted=true'')"

text \<open>Both setters copy the response and append one \<^verbatim>\<open>Set-Cookie\<close> header.\<close>

definition setAbTestCookie :: "response \<Rightarrow> string \<Rightarrow> response" where
  "setAbTestCookie response v =
     response\<lparr>headers := headers response @ [(''Set-Cookie'', COOKIE_NAME @ ''='' @ v @ ''; path=/'')]\<rparr>"

definition setActionCountedCookie :: "response \<Rightarrow> response" where
  "setActionCountedCookie response =
     response\<lparr>headers := headers response @ [(''Set-Cookie'', ''cloudflare_ab_test_counted=true; path=/'')]\<rparr>"

text \<open>\<^verbatim>\<open>Response.redirect(url, status)\<close>: an empty body and a \<^verbatim>\<open>Location\<close> header.\<close>

definition Response_redirect :: "string \<Rightarrow> nat \<Rightarrow> response" where
  "Response_redirect url st = \<lparr>status = st, headers = [(''Location'', url)], body = []\<rparr>"

subsection \<open>Durable object helpers\<close>

text \<open>
  \<^verbatim>\<open>env.COUNTER\<close> addresses one \<^verbatim>\<open>Counter\<close> object per name
  (\<^verbatim>\<open>idFromName\<close> is deterministic and gives different names different objects), so
  the binding is a function from names to objects. A stub's \<^verbatim>\<open>fetch\<close> is given a
  relative URL (\<^verbatim>\<open>"increment"\<close>, \<^verbatim>\<open>"value"\<close>); the platform resolves it against the
  root of a placeholder origin, so the object sees the pathname \<^verbatim>\<open>"/increment"\<close>. The
  call runs on the object as \<^verbatim>\<open>Counter_fetch\<close>, and an exception of the object
  reaches the caller of the stub.
\<close>

type_synonym env = "string \<Rightarrow> counter"

definition stub_pathname :: "string \<Rightarrow> string" where
  "stub_pathname url = ''/'' @ url"

definition stub_fetch :: "env \<Rightarrow> string \<Rightarrow> string \<Rightarrow> env \<times> (error + response)" where
  "stub_fetch env key url =
     (case Counter_fetch (env key) (stub_pathname url) of
        (c, r) \<Rightarrow> (env(key := c), r))"

definition incrementCounter :: "string \<Rightarrow> env \<Rightarrow> env \<times> (error + string)" where
  "incrementCounter key env =
     (case stub_fetch env key ''increment'' of
        (env', Inl e) \<Rightarrow> (env', Inl e)
      | (env', Inr resp) \<Rightarrow> (env', Inr (body resp)))"

definition getCounterValue :: "string \<Rightarrow> env \<Rightarrow> env \<times> (error + string)" where
  "getCounterValue key env =
     (case stub_fetch env key ''value'' of
        (env', Inl e) \<Rightarrow> (env', Inl e)
      | (env', Inr resp) \<Rightarrow> (env', Inr (body resp)))"

subsection \<open>\<^verbatim>\<open>JSON.stringify(data, null, 2)\<close>\<close>

text \<open>
  The object the result branch serialises is flat; its property values are what
  \<^verbatim>\<open>resp.text()\<close> gave, that is, strings. Numbers are in the value type as well, as
  \<^verbatim>\<open>JSON.stringify\<close> prints them, bare.
\<close>

datatype jsvalue = JString string | JNumber int

definition hex_char :: "nat \<Rightarrow> char" where
  "hex_char d = ''0123456789abcdef'' ! d"

definition QuoteJSONChar :: "char \<Rightarrow> string" where
  "QuoteJSONChar c =
     (if c = CHR 0x22 then [CHR 0x5C, CHR 0x22]
      else if c = CHR 0x5C then [CHR 0x5C, CHR 0x5C]
      else if c = CHR 0x08 then [CHR 0x5C, CHR ''b'']
      else if c = CHR 0x09 then [CHR 0x5C, CHR ''t'']
      else if c = CHR 0x0A then [CHR 0x5C, CHR ''n'']
      else if c = CHR 0x0C then [CHR 0x5C, CHR ''f'']
      else if c = CHR 0x0D then [CHR 0x5C, CHR ''r'']
      else if (of_char c :: nat) < 32
        then [CHR 0x5C, CHR ''u'', CHR ''0'', CHR ''0'',
              hex_char (of_char c div 16), hex_char (of_char c mod 16)]
      else [c])"

definition QuoteJSONString :: "string \<Rightarrow> string" where
  "QuoteJSONString s = CHR 0x22 # concat (map QuoteJSONChar s) @ [CHR 0x22]"

fun SerializeJSONProperty :: "jsvalue \<Rightarrow> string" where
  "SerializeJSONProperty (JString s) = QuoteJSONString s"
| "SerializeJSONProperty (JNumber n) = String n"

fun join :: "string \<Rightarrow> string list \<Rightarrow> string" where
  "join sep [] = []"
| "join sep [x] = x"
| "join sep (x # y # ys) = x @ sep @ join sep (y # ys)"

text \<open>A flat object at top level with the gap of two spaces: one property per line.\<close>

definition JSON_stringify :: "(string \<times> jsvalue) list \<Rightarrow> string" where
  "JSON_stringify data =
     (if data = [] then ''{}''
      else ''{'' @ [CHR 0x0A]
           @ join ('','' @ [CHR 0x0A])
               (map (\<lambda>(k, v). ''  '' @ QuoteJSONString k @ '': '' @ SerializeJSONProperty v) data)
           @ [CHR 0x0A] @ ''}'')"

subsection \<open>\<^verbatim>\<open>handleRequest\<close>\<close>

text \<open>
  The parameters besides the request and the binding: \<open>origin\<close>, the upstream that the
  global \<^verbatim>\<open>fetch\<close> reaches (\<open>origin p r\<close> is its response to the request \<open>r\<close> sent to
  the path \<open>p\<close>: \<^verbatim>\<open>fetch(request)\<close> goes to the request's own path,
  \<^verbatim>\<open>fetch(url, request)\<close> to the path of \<^verbatim>\<open>url\<close>), and \<open>random\<close>, the number
  \<^verbatim>\<open>Math.random()\<close> returns, in \<open>[0, 1)\<close>.

  In the first branch the code sets \<^verbatim>\<open>url.pathname = CONTROL_PATH\<close> and then calls
  \<^verbatim>\<open>fetch(request)\<close>: the request is sent as it came, and \<^verbatim>\<open>url\<close> is not used.
  In the last branch of \<^verbatim>\<open>BASE_PATH\<close> the promise of \<^verbatim>\<open>incrementCounter\<close> is not
  awaited: the call is made, and neither its result nor its failure reaches the response.
  In the action branch it is awaited with no handler, so a failure ends the request.
\<close>

definition result_data :: "string \<Rightarrow> string \<Rightarrow> string \<Rightarrow> string \<Rightarrow> (string \<times> jsvalue) list" where
  "result_data counterControlShow counterControlAction counterVariantShow counterVariantAction =
     [(''controlShow'', JString counterControlShow),
      (''controlAction'', JString counterControlAction),
      (''variantShow'', JString counterVariantShow),
      (''variantAction'', JString counterVariantAction)]"

definition handleRequest ::
  "(string \<Rightarrow> request \<Rightarrow> response) \<Rightarrow> real \<Rightarrow> request \<Rightarrow> env \<Rightarrow> env \<times> (error + response)" where
  "handleRequest origin random request env =
     (if pathname request = BASE_PATH then
        if hasControlCookie request then (env, Inr (origin (pathname request) request))
        else if hasVariantCookie request then (env, Inr (origin VARIANT_PATH request))
        else
          let group = (if random < 0.5 then ''variant'' else ''control'') in
          if group = ''variant'' then
            (case incrementCounter COUNTER_VARIANT_SHOW env of
               (env', _) \<Rightarrow> (env', Inr (setAbTestCookie (origin VARIANT_PATH request) group)))
          else
            (case incrementCounter COUNTER_CONTROL_SHOW env of
               (env', _) \<Rightarrow> (env', Inr (setAbTestCookie (origin CONTROL_PATH request) group)))
      else if pathname request = ACTION_PATH then
        let response = Response_redirect ''https://ptrlaszlo.com/posts/cloudflare-ab-testing'' 302 in
        if hasControlCookie request \<and> actionNotCountedCookie request then
          (case incrementCounter COUNTER_CONTROL_ACTION env of
             (env', Inl e) \<Rightarrow> (env', Inl e)
           | (env', Inr _) \<Rightarrow> (env', Inr (setActionCountedCookie response)))
        else if hasVariantCookie request \<and> actionNotCountedCookie request then
          (case incrementCounter COUNTER_VARIANT_ACTION env of
             (env', Inl e) \<Rightarrow> (env', Inl e)
           | (env', Inr _) \<Rightarrow> (env', Inr (setActionCountedCookie response)))
        else (env, Inr response)
      else if pathname request = RESULT_PATH then
        (case getCounterValue COUNTER_CONTROL_SHOW env of
           (env1, Inl e) \<Rightarrow> (env1, Inl e)
         | (env1, Inr counterControlShow) \<Rightarrow>
        (case getCounterValue COUNTER_CONTROL_ACTION env1 of
           (env2, Inl e) \<Rightarrow> (env2, Inl e)
         | (env2, Inr counterControlAction) \<Rightarrow>
        (case getCounterValue COUNTER_VARIANT_SHOW env2 of
           (env3, Inl e) \<Rightarrow> (env3, Inl e)
         | (env3, Inr counterVariantShow) \<Rightarrow>
        (case getCounterValue COUNTER_VARIANT_ACTION env3 of
           (env4, Inl e) \<Rightarrow> (env4, Inl e)
         | (env4, Inr counterVariantAction) \<Rightarrow>
             (env4, Inr \<lparr>status = 200,
                         headers = [(''content-type'', ''application/json;charset=UTF-8'')],
                         body = JSON_stringify
                                  (result_data counterControlShow counterControlAction
                                     counterVariantShow counterVariantAction)\<rparr>)))))
      else (env, Inr (origin (pathname request) request)))"

section \<open>Sample inputs\<close>

text \<open>Storages, bindings and an upstream for evaluating the model on concrete requests.\<close>

definition fresh_storage :: storage where
  "fresh_storage = \<lparr>slot = None, put_fails = False\<rparr>"

definition fresh_env :: env where
  "fresh_env = (\<lambda>key. Counter_constructor fresh_storage)"

definition failing_env :: env where
  "failing_env = (\<lambda>key. Counter_constructor \<lparr>slot = None, put_fails = True\<rparr>)"

text \<open>An upstream whose page at each path is the path itself.\<close>

definition echo_origin :: "string \<Rightarrow> request \<Rightarrow> response" where
  "echo_origin path request = new_Response path"

text \<open>A binding whose four counters were rehydrated from the given persisted values.\<close>

definition tallied_env :: "int \<Rightarrow> int \<Rightarrow> int \<Rightarrow> int \<Rightarrow> env" where
  "tallied_env cs ca vs va =
     fresh_env
       (COUNTER_CONTROL_SHOW := Counter_constructor \<lparr>slot = Some cs, put_fails = False\<rparr>,
        COUNTER_CONTROL_ACTION := Counter_constructor \<lparr>slot = Some ca, put_fails = False\<rparr>,
        COUNTER_VARIANT_SHOW := Counter_constructor \<lparr>slot = Some vs, put_fails = False\<rparr>,
        COUNTER_VARIANT_ACTION := Counter_constructor \<lparr>slot = Some va, put_fails = False\<rparr>)"

text \<open>The response the action branch starts from.\<close>

definition redirect :: response where
  "redirect = Response_redirect ''https://ptrlaszlo.com/posts/cloudflare-ab-testing'' 302"

text \<open>The events that change \<^verbatim>\<open>this.value\<close>: the delivery of an increment or a decrement.\<close>

fun mutation :: "lifecycle_event \<Rightarrow> bool" where
  "mutation (Ev (Deliver path)) = (path = ''/increment'' \<or> path = ''/decrement'')"
| "mutation e = False"

section \<open>The cookies of a request, as the specification reads them\<close>

text \<open>
  The specification speaks of cookies as the name=value pairs of the request header,
  \<^verbatim>\<open>cloudflare_ab_test\<close> with the value \<^verbatim>\<open>control\<close> or \<^verbatim>\<open>variant\<close> for the
  assignment and \<^verbatim>\<open>cloudflare_ab_test_counted=true\<close> for the dedup marker. These
  definitions follow those words, not the code: the header is split at the semicolons,
  blanks before a pair are dropped, and a pair is split at its first equals sign. They
  serve to compare the code's substring tests with the cookies a request carries.
\<close>

fun split_at :: "char \<Rightarrow> string \<Rightarrow> string list" where
  "split_at d [] = [[]]"
| "split_at d (c # cs) =
     (if c = d then [] # split_at d cs
      else (case split_at d cs of [] \<Rightarrow> [[c]] | x # xs \<Rightarrow> (c # x) # xs))"

definition spec_cookie_pairs :: "string \<Rightarrow> (string \<times> string) list" where
  "spec_cookie_pairs header =
     map (\<lambda>pair. (takeWhile (\<lambda>c. c \<noteq> CHR ''='') pair,
                   drop 1 (dropWhile (\<lambda>c. c \<noteq> CHR ''='') pair)))
       (map (dropWhile (\<lambda>c. c = CHR '' '')) (split_at (CHR '';'') header))"

definition spec_cookie :: "string \<Rightarrow> request \<Rightarrow> string option" where
  "spec_cookie name request =
     (case cookie request of
        None \<Rightarrow> None
      | Some header \<Rightarrow> map_of (spec_cookie_pairs header) name)"

text \<open>The group a visitor is assigned to, if any, and whether the action was counted.\<close>

definition spec_group :: "request \<Rightarrow> string option" where
  "spec_group request =
     (case spec_cookie ''cloudflare_ab_test'' request of
        None \<Rightarrow> None
      | Some v \<Rightarrow> if v = ''control'' \<or> v = ''variant'' then Some v else None)"

definition spec_action_counted :: "request \<Rightarrow> bool" where
  "spec_action_counted request =
     (spec_cookie ''cloudflare_ab_test_counted'' request = Some ''true'')"

section \<open>Notions for stating the range of a counter's value\<close>

text \<open>
  \<open>trace c paths\<close>: the values \<^verbatim>\<open>this.value\<close> takes while the calls \<open>paths\<close> run
  one after the other, the first one included. \<open>decrements_above_zero c paths\<close>: along
  that run, no \<^verbatim>\<open>/decrement\<close> arrives when the value is \<open>0\<close>.
\<close>

fun trace :: "counter \<Rightarrow> string list \<Rightarrow> int list" where
  "trace c [] = [this_value c]"
| "trace c (path # paths) = this_value c # trace (fst (Counter_fetch c path)) paths"

fun decrements_above_zero :: "counter \<Rightarrow> string list \<Rightarrow> bool" where
  "decrements_above_zero c [] = True"
| "decrements_above_zero c (path # paths) =
     ((path = ''/decrement'' \<longrightarrow> this_value c \<noteq> 0)
      \<and> decrements_above_zero (fst (Counter_fetch c path)) paths)"

section \<open>Notions for stating the properties of concurrent calls\<close>

text \<open>Reading a decimal numeral back: the number that a string of digits denotes.\<close>

definition digit_value :: "char \<Rightarrow> nat" where
  "digit_value c = of_char c - 48"

definition number_of :: "string \<Rightarrow> nat" where
  "number_of s = foldl (\<lambda>n c. 10 * n + digit_value c) 0 s"

text \<open>
  \<open>ledger\<close>: the outcomes given so far together with the responses that the suspended
  calls will give. \<open>latest\<close>: the value of the last \<^verbatim>\<open>put\<close> issued, which is the
  persisted one once no write is outstanding. \<open>answers V N\<close>: the responses for the
  values \<open>V + 1, \<dots>, V + N\<close>. \<open>increments\<close>: the number of increment calls in a
  schedule.
\<close>

definition ledger :: "durable_object \<Rightarrow> (error + response) multiset" where
  "ledger s = mset (map (\<lambda>(i, currentValue, w). Inr (fetch_after_await currentValue)) (inflight s))
              + mset (map snd (results s))"

definition latest :: "durable_object \<Rightarrow> int option" where
  "latest s = (if inflight s = [] then slot (this_storage (obj s))
               else Some (snd (snd (last (inflight s)))))"

definition answers :: "int \<Rightarrow> nat \<Rightarrow> (error + response) list" where
  "answers V N = map (\<lambda>v. Inr (new_Response (String v))) [V + 1 .. V + int N]"

definition increments :: "event list \<Rightarrow> nat" where
  "increments es = count_list es (Deliver ''/increment'')"

section \<open>Auxiliary facts\<close>

lemmas paths = BASE_PATH_def CONTROL_PATH_def VARIANT_PATH_def ACTION_PATH_def RESULT_PATH_def
lemmas counters = COUNTER_CONTROL_SHOW_def COUNTER_CONTROL_ACTION_def COUNTER_VARIANT_SHOW_def COUNTER_VARIANT_ACTION_def

lemma str_includes_iff: "str_includes s p \<longleftrightarrow> (\<exists>a b. s = a @ p @ b)"
proof (induction s)
  case Nil
  then show ?case by auto
next
  case (Cons c cs)
  show ?case
  proof
    assume "str_includes (c # cs) p"
    then consider "take (length p) (c # cs) = p" | "str_includes cs p" by auto
    then show "\<exists>a b. c # cs = a @ p @ b"
    proof cases
      case 1
      then have "c # cs = [] @ p @ drop (length p) (c # cs)"
        by (metis append_Nil append_take_drop_id)
      then show ?thesis by blast
    next
      case 2
      then obtain a b where "cs = a @ p @ b" using Cons.IH by blast
      then have "c # cs = (c # a) @ p @ b" by simp
      then show ?thesis by blast
    qed
  next
    assume "\<exists>a b. c # cs = a @ p @ b"
    then obtain a b where ab: "c # cs = a @ p @ b" by blast
    show "str_includes (c # cs) p"
    proof (cases a)
      case Nil
      with ab have "take (length p) (c # cs) = p" by simp
      then show ?thesis by simp
    next
      case (Cons x xs)
      with ab have "cs = xs @ p @ b" by simp
      then have "str_includes cs p" using Cons.IH by blast
      then show ?thesis by simp
    qed
  qed
qed

lemma pre_increment_exact:
  "- exact_limit \<le> v \<Longrightarrow> v < exact_limit \<Longrightarrow> pre_increment v = v + 1"
  by (simp add: pre_increment_def)

lemma pre_decrement_exact:
  "- exact_limit < v \<Longrightarrow> v \<le> exact_limit \<Longrightarrow> pre_decrement v = v - 1"
  by (simp add: pre_decrement_def)

lemma pre_increment_safe: "safe_integer v \<Longrightarrow> pre_increment v = v + 1"
  by (simp add: pre_increment_def safe_integer_def)

lemma pre_decrement_safe: "safe_integer v \<Longrightarrow> pre_decrement v = v - 1"
  by (simp add: pre_decrement_def safe_integer_def)

lemma pre_increment_nonneg: "0 \<le> v \<Longrightarrow> 0 \<le> pre_increment v"
  by (simp add: pre_increment_def)

lemma pre_decrement_nonneg: "0 < v \<Longrightarrow> 0 \<le> pre_decrement v"
  by (simp add: pre_decrement_def exact_limit_def)

text \<open>At the limit the double stalls: \<open>2\<^sup>5\<^sup>3 - 1\<close> goes to \<open>2\<^sup>5\<^sup>3\<close>, and \<open>2\<^sup>5\<^sup>3\<close> stays.\<close>

lemma pre_increment_at_limit:
  "pre_increment 9007199254740991 = 9007199254740992"
  "pre_increment 9007199254740992 = 9007199254740992"
  "pre_decrement (- 9007199254740992) = - 9007199254740992"
  by (simp_all add: pre_increment_def pre_decrement_def exact_limit_def)

lemma safe_small: "safe_integer 0" "safe_integer 4"
  by (simp_all add: safe_integer_def exact_limit_def)

lemma Counter_fetch_value_path: "Counter_fetch c ''/value'' = (c, Inr (new_Response (String (this_value c))))"
  by (simp add: Counter_fetch_def fetch_before_await_def)

lemma Counter_fetch_increment:
  "Counter_fetch c ''/increment'' =
     (if put_fails (this_storage c)
      then (c\<lparr>this_value := pre_increment (this_value c)\<rparr>, Inl StorageFailure)
      else (\<lparr>this_value = pre_increment (this_value c),
             this_storage = (this_storage c)\<lparr>slot := Some (pre_increment (this_value c))\<rparr>\<rparr>,
            Inr (new_Response (String (pre_increment (this_value c))))))"
  by (simp add: Counter_fetch_def fetch_before_await_def storage_put_def fetch_after_await_def)

lemma incrementCounter_eq:
  "incrementCounter key env =
     (env(key := fst (Counter_fetch (env key) ''/increment'')),
      if put_fails (this_storage (env key)) then Inl StorageFailure
      else Inr (String (pre_increment (this_value (env key)))))"
  by (simp add: incrementCounter_def stub_fetch_def stub_pathname_def Counter_fetch_increment new_Response_def)

lemma getCounterValue_eq: "getCounterValue key env = (env, Inr (String (this_value (env key))))"
  by (simp add: getCounterValue_def stub_fetch_def stub_pathname_def Counter_fetch_value_path new_Response_def)

lemma handle_entry:
  assumes "pathname r = BASE_PATH"
  shows "handleRequest origin random r env =
     (if hasControlCookie r then (env, Inr (origin BASE_PATH r))
      else if hasVariantCookie r then (env, Inr (origin VARIANT_PATH r))
      else if random < 1/2
        then (env(COUNTER_VARIANT_SHOW := fst (Counter_fetch (env COUNTER_VARIANT_SHOW) ''/increment'')),
              Inr (setAbTestCookie (origin VARIANT_PATH r) ''variant''))
        else (env(COUNTER_CONTROL_SHOW := fst (Counter_fetch (env COUNTER_CONTROL_SHOW) ''/increment'')),
              Inr (setAbTestCookie (origin CONTROL_PATH r) ''control'')))"
  using assms by (simp add: handleRequest_def incrementCounter_eq)

lemma handle_action:
  assumes "pathname r = ACTION_PATH"
  shows "handleRequest origin random r env =
     (if hasControlCookie r \<and> actionNotCountedCookie r
      then (env(COUNTER_CONTROL_ACTION := fst (Counter_fetch (env COUNTER_CONTROL_ACTION) ''/increment'')),
            if put_fails (this_storage (env COUNTER_CONTROL_ACTION)) then Inl StorageFailure
            else Inr (setActionCountedCookie
                        (Response_redirect ''https://ptrlaszlo.com/posts/cloudflare-ab-testing'' 302)))
      else if hasVariantCookie r \<and> actionNotCountedCookie r
      then (env(COUNTER_VARIANT_ACTION := fst (Counter_fetch (env COUNTER_VARIANT_ACTION) ''/increment'')),
            if put_fails (this_storage (env COUNTER_VARIANT_ACTION)) then Inl StorageFailure
            else Inr (setActionCountedCookie
                        (Response_redirect ''https://ptrlaszlo.com/posts/cloudflare-ab-testing'' 302)))
      else (env, Inr (Response_redirect ''https://ptrlaszlo.com/posts/cloudflare-ab-testing'' 302)))"
proof -
  have ne: "ACTION_PATH \<noteq> BASE_PATH" by (simp add: paths)
  show ?thesis
    using assms ne by (simp add: handleRequest_def incrementCounter_eq Let_def)
qed

lemma handle_result:
  assumes "pathname r = RESULT_PATH"
  shows "handleRequest origin random r env =
     (env, Inr \<lparr>status = 200,
                headers = [(''content-type'', ''application/json;charset=UTF-8'')],
                body = JSON_stringify
                         (result_data (String (this_value (env COUNTER_CONTROL_SHOW)))
                            (String (this_value (env COUNTER_CONTROL_ACTION)))
                            (String (this_value (env COUNTER_VARIANT_SHOW)))
                            (String (this_value (env COUNTER_VARIANT_ACTION))))\<rparr>)"
proof -
  have ne: "RESULT_PATH \<noteq> BASE_PATH" "RESULT_PATH \<noteq> ACTION_PATH" by (simp_all add: paths)
  show ?thesis using assms ne by (simp add: handleRequest_def getCounterValue_eq)
qed

section \<open>Properties of one counter\<close>

lemma Counter_fetch_value:
  "this_value (fst (Counter_fetch c path)) =
     (if path = ''/increment'' then pre_increment (this_value c)
      else if path = ''/decrement'' then pre_decrement (this_value c)
      else this_value c)"
  by (simp add: Counter_fetch_def fetch_before_await_def storage_put_def)

lemma String_small:
  "String 5 = ''5''" "String 2 = ''2''" "String 7 = ''7''" "String 3 = ''3''" "String 0 = ''0''"
  by (simp_all add: String_def digits.simps digit_char_def)

lemma Counter_fetch_exact:
  "safe_integer (this_value c) \<Longrightarrow>
   this_value (fst (Counter_fetch c path)) =
     (if path = ''/increment'' then this_value c + 1
      else if path = ''/decrement'' then this_value c - 1
      else this_value c)"
  by (simp add: Counter_fetch_value pre_increment_safe pre_decrement_safe)

lemma fetch_all_law:
  "\<bar>this_value c\<bar> + int (length paths) \<le> exact_limit \<Longrightarrow>
   this_value (fetch_all c paths)
     = this_value c + int (count_list paths ''/increment'') - int (count_list paths ''/decrement'')"
proof (induction paths arbitrary: c)
  case Nil
  then show ?case by simp
next
  case (Cons path paths)
  let ?d = "fst (Counter_fetch c path)"
  from Cons.prems have safe: "safe_integer (this_value c)"
    by (auto simp: safe_integer_def)
  note step = Counter_fetch_exact [OF safe, of path]
  from step Cons.prems have "\<bar>this_value ?d\<bar> + int (length paths) \<le> exact_limit"
    by (simp split: if_splits)
  from Cons.IH [OF this] step show ?case
    by (simp split: if_splits)
qed

lemma trace_nonneg:
  "0 \<le> this_value c \<Longrightarrow> decrements_above_zero c paths \<Longrightarrow> \<forall>v\<in>set (trace c paths). 0 \<le> v"
proof (induction paths arbitrary: c)
  case Nil
  then show ?case by simp
next
  case (Cons path paths)
  have "0 \<le> this_value (fst (Counter_fetch c path))"
    using Cons.prems
    by (auto simp: Counter_fetch_value pre_increment_nonneg pre_decrement_nonneg)
  with Cons show ?case by simp
qed

section \<open>The range of a counter's value\<close>

text \<open>
  C9, as the code has it. On a safe integer an increment adds exactly one, a decrement
  subtracts exactly one, and every other call leaves \<^verbatim>\<open>this.value\<close> as it is; so
  after a sequence of calls the value is the first one plus the number of increments
  minus the number of decrements (as long as the magnitudes stay within \<open>2\<^sup>5\<^sup>3\<close>). A
  counter that starts non-negative stays non-negative at every moment of every sequence
  in which no decrement arrives at the value \<open>0\<close>; a constructed counter starts
  non-negative when the persisted value is absent or non-negative. The code has no floor
  at zero: a decrement at \<open>0\<close> gives \<open>-1\<close>.
\<close>

theorem counter_value_law:
  "(safe_integer (this_value c) \<longrightarrow>
      this_value (fst (Counter_fetch c path)) =
        (if path = ''/increment'' then this_value c + 1
         else if path = ''/decrement'' then this_value c - 1
         else this_value c))
   \<and> (\<bar>this_value c\<bar> + int (length paths) \<le> exact_limit \<longrightarrow>
      this_value (fetch_all c paths)
        = this_value c + int (count_list paths ''/increment'') - int (count_list paths ''/decrement''))
   \<and> (0 \<le> this_value c \<and> decrements_above_zero c paths \<longrightarrow> (\<forall>v\<in>set (trace c paths). 0 \<le> v))
   \<and> ((case slot st of None \<Rightarrow> True | Some K \<Rightarrow> 0 \<le> K) \<longrightarrow> 0 \<le> this_value (Counter_constructor st))
   \<and> (this_value c = 0 \<longrightarrow> this_value (fst (Counter_fetch c ''/decrement'')) = - 1)"
proof -
  have init: "0 \<le> this_value (Counter_constructor st)"
    if "case slot st of None \<Rightarrow> True | Some K \<Rightarrow> 0 \<le> K"
    using that by (simp add: Counter_constructor_def storage_get_def split: option.splits)
  have zero: "this_value (fst (Counter_fetch c ''/decrement'')) = - 1" if "this_value c = 0"
    using that by (simp add: Counter_fetch_value pre_decrement_def exact_limit_def)
  from init zero Counter_fetch_exact [of c path] fetch_all_law [of c paths] trace_nonneg [of c paths]
  show ?thesis by blast
qed

theorem counter_value_law_witness:
  "safe_integer (this_value (Counter_constructor fresh_storage))
   \<and> this_value (fst (Counter_fetch (Counter_constructor fresh_storage) ''/increment''))
       = this_value (Counter_constructor fresh_storage) + 1
   \<and> \<bar>this_value (Counter_constructor fresh_storage)\<bar>
       + int (length [''/increment'', ''/increment'', ''/decrement'', ''/value'']) \<le> exact_limit
   \<and> this_value (fetch_all (Counter_constructor fresh_storage)
        [''/increment'', ''/increment'', ''/decrement'', ''/value''])
       = this_value (Counter_constructor fresh_storage) + 2 - 1
   \<and> 0 \<le> this_value (Counter_constructor fresh_storage)
   \<and> decrements_above_zero (Counter_constructor fresh_storage)
        [''/increment'', ''/increment'', ''/decrement'', ''/value'']
   \<and> 0 \<le> last (trace (Counter_constructor fresh_storage)
                  [''/increment'', ''/increment'', ''/decrement'', ''/value''])"
  (is "?h1 \<and> ?c1 \<and> ?h2 \<and> ?c2 \<and> ?h3 \<and> ?h4 \<and> ?c3")
proof -
  let ?c = "Counter_constructor fresh_storage"
  let ?paths = "[''/increment'', ''/increment'', ''/decrement'', ''/value'']"
  have z: "this_value ?c = 0"
    by (simp add: Counter_constructor_def fresh_storage_def storage_get_def)
  have h1: ?h1 by (simp add: z safe_small)
  have h2: ?h2 by (simp add: z exact_limit_def)
  have h3: ?h3 by (simp add: z)
  have h4: ?h4
    by (simp add: z Counter_fetch_value pre_increment_def pre_decrement_def exact_limit_def)
  note t = counter_value_law [of ?c "''/increment''" ?paths fresh_storage]
  from t h1 have c1: ?c1 by simp
  from t h2 have "this_value (fetch_all ?c ?paths)
      = this_value ?c + int (count_list ?paths ''/increment'') - int (count_list ?paths ''/decrement'')"
    by blast
  then have c2: ?c2 by simp
  from t h3 h4 have all: "\<forall>v\<in>set (trace ?c ?paths). 0 \<le> v" by blast
  have "last (trace ?c ?paths) \<in> set (trace ?c ?paths)" by simp
  with all have c3: ?c3 by blast
  from h1 c1 h2 c2 h3 h4 c3 show ?thesis by blast
qed

text \<open>
  C9 as written does not hold: a counter with nothing persisted starts at \<open>0\<close>, and one
  \<^verbatim>\<open>/decrement\<close> takes it to \<open>-1\<close>.
\<close>

theorem decrement_below_zero:
  "this_value (fetch_all (Counter_constructor fresh_storage) [''/decrement'']) = - 1
   \<and> \<not> 0 \<le> this_value (fetch_all (Counter_constructor fresh_storage) [''/decrement''])"
  by (simp add: Counter_fetch_value Counter_constructor_def fresh_storage_def storage_get_def
      pre_decrement_def exact_limit_def)

section \<open>Rehydration\<close>

lemma run_instance_append:
  "run_instance (es @ fs) i = (case run_instance es i of None \<Rightarrow> None | Some j \<Rightarrow> run_instance fs j)"
  by (induction es arbitrary: i) (auto split: option.splits)

lemma step_no_mutation:
  assumes "step_instance e (Ready s) = Some j" "\<not> mutation e" "inflight s = []"
  shows "\<exists>s'. j = Ready s' \<and> inflight s' = [] \<and> obj s' = obj s"
proof (cases e)
  case InitDone
  with assms show ?thesis by simp
next
  case (Ev ev)
  show ?thesis
  proof (cases ev)
    case (Deliver path)
    with Ev assms show ?thesis
      by (auto simp: fetch_before_await_def split: if_splits)
  next
    case PutDone
    with Ev assms show ?thesis by simp
  qed
qed

lemma run_no_mutation:
  assumes "run_instance es (Ready s) = Some j" "\<forall>e\<in>set es. \<not> mutation e" "inflight s = []"
  shows "\<exists>s'. j = Ready s' \<and> inflight s' = [] \<and> obj s' = obj s"
  using assms
proof (induction es arbitrary: s)
  case Nil
  then show ?case by auto
next
  case (Cons e es)
  from Cons.prems(1) obtain k where k: "step_instance e (Ready s) = Some k" "run_instance es k = Some j"
    by (auto split: option.splits)
  from step_no_mutation [OF k(1)] Cons.prems obtain s' where
    s': "k = Ready s'" "inflight s' = []" "obj s' = obj s" by auto
  from Cons.IH [of s'] k(2) s' Cons.prems(2) show ?case by auto
qed

lemma run_from_initializing:
  assumes "run_instance es (Initializing st) = Some j" "\<forall>e\<in>set es. \<not> mutation e"
  shows "j = Initializing st \<and> es = []
         \<or> (\<exists>s'. j = Ready s' \<and> inflight s' = [] \<and> obj s' = Counter_constructor st)"
proof (cases es)
  case Nil
  with assms show ?thesis by simp
next
  case (Cons e es')
  with assms(1) have e: "e = InitDone"
    by (cases e) auto
  with Cons assms(1) have "run_instance es' (Ready (idle (Counter_constructor st))) = Some j"
    by simp
  from run_no_mutation [OF this] assms(2) Cons show ?thesis
    by (auto simp: idle_def)
qed

text \<open>
  C3. A counter constructed over a storage that holds \<open>K\<close> has the value \<open>K\<close>, and
  \<open>0\<close> over a storage that holds nothing; \<^verbatim>\<open>/value\<close> reports it. While the
  initialisation runs no event is processed, and in every run that starts with the
  activation and has no increment or decrement before it, a \<^verbatim>\<open>/value\<close> call
  answers with the persisted value (or \<open>0\<close>).
\<close>

theorem rehydrated_value:
  "this_value (Counter_constructor \<lparr>slot = Some K, put_fails = f\<rparr>) = K
   \<and> this_value (Counter_constructor \<lparr>slot = None, put_fails = f\<rparr>) = 0
   \<and> snd (Counter_fetch (Counter_constructor st) ''/value'')
       = Inr (new_Response (String (case slot st of None \<Rightarrow> 0 | Some K \<Rightarrow> K)))
   \<and> step_instance (Ev e) (Initializing st) = None
   \<and> (run_instance (es @ [Ev (Deliver ''/value'')]) (Initializing st) = Some j
        \<and> (\<forall>e\<in>set es. \<not> mutation e)
      \<longrightarrow> last (responses j) = Inr (new_Response (String (case slot st of None \<Rightarrow> 0 | Some K \<Rightarrow> K))))"
proof -
  have v: "this_value (Counter_constructor st) = (case slot st of None \<Rightarrow> 0 | Some K \<Rightarrow> K)" for st
    by (simp add: Counter_constructor_def storage_get_def split: option.splits)
  have "last (responses j) = Inr (new_Response (String (case slot st of None \<Rightarrow> 0 | Some K \<Rightarrow> K)))"
    if r: "run_instance (es @ [Ev (Deliver ''/value'')]) (Initializing st) = Some j"
      and m: "\<forall>e\<in>set es. \<not> mutation e"
  proof -
    from r obtain k where k: "run_instance es (Initializing st) = Some k"
      "step_instance (Ev (Deliver ''/value'')) k = Some j"
      by (auto simp: run_instance_append split: option.splits)
    from run_from_initializing [OF k(1) m] k(2) obtain s' where
      s': "k = Ready s'" "obj s' = Counter_constructor st"
      by auto
    with k(2) show ?thesis
      by (auto simp: fetch_before_await_def v)
  qed
  then show ?thesis
    by (simp add: v Counter_fetch_value_path)
qed

theorem rehydrated_value_witness:
  "run_instance ([InitDone, Ev (Deliver ''/nothing'')] @ [Ev (Deliver ''/value'')])
       (Initializing \<lparr>slot = Some 7, put_fails = False\<rparr>)
     = Some (Ready \<lparr>obj = \<lparr>this_value = 7, this_storage = \<lparr>slot = Some 7, put_fails = False\<rparr>\<rparr>,
                     inflight = [],
                     results = [(0, Inr \<lparr>status = 404, headers = [], body = ''Not found /nothing''\<rparr>),
                                (1, Inr \<lparr>status = 200, headers = [], body = ''7''\<rparr>)],
                     delivered = 2\<rparr>)
   \<and> \<not> mutation InitDone \<and> \<not> mutation (Ev (Deliver ''/nothing''))
   \<and> last (responses (Ready \<lparr>obj = \<lparr>this_value = 7, this_storage = \<lparr>slot = Some 7, put_fails = False\<rparr>\<rparr>,
                     inflight = [],
                     results = [(0, Inr \<lparr>status = 404, headers = [], body = ''Not found /nothing''\<rparr>),
                                (1, Inr \<lparr>status = 200, headers = [], body = ''7''\<rparr>)],
                     delivered = 2\<rparr>))
       = Inr (new_Response (String (case slot \<lparr>slot = Some 7, put_fails = False\<rparr> of None \<Rightarrow> 0 | Some K \<Rightarrow> K)))"
  (is "?r \<and> ?m1 \<and> ?m2 \<and> ?c")
proof -
  have r: ?r
    by (simp add: idle_def Counter_constructor_def storage_get_def fetch_before_await_def
        new_Response_def String_def digits.simps digit_char_def)
  have m1: ?m1 and m2: ?m2 by simp_all
  then have m: "\<forall>e\<in>set [InitDone, Ev (Deliver ''/nothing'')]. \<not> mutation e" by simp
  have ?c
    using rehydrated_value [of 7 False "\<lparr>slot = Some 7, put_fails = False\<rparr>" PutDone
      "[InitDone, Ev (Deliver ''/nothing'')]"] r m
    by blast
  with r m1 m2 show ?thesis by blast
qed

section \<open>Cookie detection\<close>

text \<open>
  C10. \<^verbatim>\<open>hasControlCookie\<close> holds exactly when the cookie header contains
  \<^verbatim>\<open>cloudflare_ab_test=control\<close> somewhere. The headers
  \<^verbatim>\<open>x_cloudflare_ab_test=control\<close> and \<^verbatim>\<open>cloudflare_ab_test=controlX\<close> pass, the
  entry branch then answers as for a control visitor (no counter, no cookie), and the
  action branch counts a control action.
\<close>

theorem cookie_detection_is_substring:
  "(hasControlCookie r \<longleftrightarrow> (\<exists>a b. cookie r = Some (a @ ''cloudflare_ab_test=control'' @ b)))
   \<and> hasControlCookie \<lparr>pathname = p, cookie = Some ''x_cloudflare_ab_test=control''\<rparr>
   \<and> hasControlCookie \<lparr>pathname = p, cookie = Some ''cloudflare_ab_test=controlX''\<rparr>
   \<and> handleRequest origin random \<lparr>pathname = BASE_PATH, cookie = Some ''x_cloudflare_ab_test=control''\<rparr> env
       = (env, Inr (origin BASE_PATH \<lparr>pathname = BASE_PATH, cookie = Some ''x_cloudflare_ab_test=control''\<rparr>))
   \<and> handleRequest origin random \<lparr>pathname = ACTION_PATH, cookie = Some ''cloudflare_ab_test=controlX''\<rparr> fresh_env
       = (fresh_env (COUNTER_CONTROL_ACTION := \<lparr>this_value = 1, this_storage = \<lparr>slot = Some 1, put_fails = False\<rparr>\<rparr>),
          Inr (setActionCountedCookie redirect))"
proof -
  have a: "hasControlCookie r \<longleftrightarrow> (\<exists>a b. cookie r = Some (a @ ''cloudflare_ab_test=control'' @ b))"
    by (cases "cookie r") (auto simp: hasControlCookie_def COOKIE_NAME_def str_includes_iff)
  have b: "hasControlCookie \<lparr>pathname = p, cookie = Some ''x_cloudflare_ab_test=control''\<rparr>" for p
    by (simp add: hasControlCookie_def COOKIE_NAME_def)
  have c: "hasControlCookie \<lparr>pathname = p, cookie = Some ''cloudflare_ab_test=controlX''\<rparr>" for p
    by (simp add: hasControlCookie_def COOKIE_NAME_def)
  have d: "actionNotCountedCookie \<lparr>pathname = p, cookie = Some ''cloudflare_ab_test=controlX''\<rparr>" for p
    by (simp add: actionNotCountedCookie_def)
  have e: "Counter_fetch (fresh_env COUNTER_CONTROL_ACTION) ''/increment''
      = (\<lparr>this_value = 1, this_storage = \<lparr>slot = Some 1, put_fails = False\<rparr>\<rparr>, Inr (new_Response (String 1)))"
    by (simp add: Counter_fetch_increment fresh_env_def fresh_storage_def Counter_constructor_def
        storage_get_def pre_increment_def exact_limit_def)
  have f: "\<not> put_fails (this_storage (fresh_env COUNTER_CONTROL_ACTION))"
    by (simp add: fresh_env_def fresh_storage_def Counter_constructor_def)
  show ?thesis
    by (simp add: a b c d e f handle_entry handle_action redirect_def)
qed

section \<open>The entry path with a group cookie\<close>

lemma hasControl_sample: "hasControlCookie \<lparr>pathname = p, cookie = Some ''cloudflare_ab_test=control''\<rparr>"
  by (simp add: hasControlCookie_def COOKIE_NAME_def)

lemma hasVariant_sample:
  "hasVariantCookie \<lparr>pathname = p, cookie = Some ''cloudflare_ab_test=variant''\<rparr>"
  "\<not> hasControlCookie \<lparr>pathname = p, cookie = Some ''cloudflare_ab_test=variant''\<rparr>"
  by (simp_all add: hasVariantCookie_def hasControlCookie_def COOKIE_NAME_def)

lemma notCounted_sample:
  "actionNotCountedCookie \<lparr>pathname = p, cookie = Some ''cloudflare_ab_test=control''\<rparr>"
  "actionNotCountedCookie \<lparr>pathname = p, cookie = Some ''cloudflare_ab_test=variant''\<rparr>"
  by (simp_all add: actionNotCountedCookie_def)

lemma entry_assigned_variant:
  assumes "pathname r = BASE_PATH" "\<not> hasControlCookie r" "hasVariantCookie r"
  shows "handleRequest origin random r env = (env, Inr (origin VARIANT_PATH r))"
  using assms by (simp add: handle_entry)

text \<open>
  C6. With a variant cookie (and no control cookie) the entry branch serves
  \<^verbatim>\<open>/abtest/variant\<close>, changes no counter and sets no cookie
  (\<open>entry_assigned_variant\<close>). With a control cookie it changes no counter and sets no
  cookie either, but the page is not \<^verbatim>\<open>/abtest/control\<close>: the code updates
  \<^verbatim>\<open>url\<close> and then fetches \<^verbatim>\<open>request\<close>, so the upstream is asked for
  \<^verbatim>\<open>/abtest\<close>. Evaluated on the request \<^verbatim>\<open>/abtest\<close> with the cookie
  \<^verbatim>\<open>cloudflare_ab_test=control\<close>, for every upstream, and for the upstream that
  answers each path with the path.
\<close>

theorem entry_control_cookie_fetches_base_path:
  "handleRequest origin random \<lparr>pathname = BASE_PATH, cookie = Some ''cloudflare_ab_test=control''\<rparr> env
     = (env, Inr (origin BASE_PATH \<lparr>pathname = BASE_PATH, cookie = Some ''cloudflare_ab_test=control''\<rparr>))
   \<and> snd (handleRequest echo_origin random
             \<lparr>pathname = BASE_PATH, cookie = Some ''cloudflare_ab_test=control''\<rparr> env)
       = Inr (new_Response ''/abtest'')
   \<and> snd (handleRequest echo_origin random
             \<lparr>pathname = BASE_PATH, cookie = Some ''cloudflare_ab_test=control''\<rparr> env)
       \<noteq> Inr (echo_origin CONTROL_PATH \<lparr>pathname = BASE_PATH, cookie = Some ''cloudflare_ab_test=control''\<rparr>)"
  by (simp add: handle_entry hasControl_sample echo_origin_def new_Response_def paths)

lemma fresh_env_writable: "\<not> put_fails (this_storage (fresh_env key))"
  by (simp add: fresh_env_def fresh_storage_def Counter_constructor_def)

lemma no_cookie_sample:
  "\<not> hasControlCookie \<lparr>pathname = p, cookie = None\<rparr>"
  "\<not> hasVariantCookie \<lparr>pathname = p, cookie = None\<rparr>"
  by (simp_all add: hasControlCookie_def hasVariantCookie_def)

section \<open>The result endpoint\<close>

lemma tallied_env_values:
  "this_value (tallied_env cs ca vs va COUNTER_CONTROL_SHOW) = cs"
  "this_value (tallied_env cs ca vs va COUNTER_CONTROL_ACTION) = ca"
  "this_value (tallied_env cs ca vs va COUNTER_VARIANT_SHOW) = vs"
  "this_value (tallied_env cs ca vs va COUNTER_VARIANT_ACTION) = va"
  by (simp_all add: tallied_env_def counters Counter_constructor_def storage_get_def)

lemma stringify_strings: \<open>JSON_stringify (result_data ''5'' ''2'' ''7'' ''3'')
    = ''{\<newline>  "controlShow": "5",\<newline>  "controlAction": "2",\<newline>  "variantShow": "7",\<newline>  "variantAction": "3"\<newline>}''\<close>
  by (simp add: JSON_stringify_def result_data_def QuoteJSONString_def QuoteJSONChar_def)

lemma stringify_numbers: \<open>JSON_stringify [(''controlShow'', JNumber 5), (''controlAction'', JNumber 2),
        (''variantShow'', JNumber 7), (''variantAction'', JNumber 3)]
    = ''{\<newline>  "controlShow": 5,\<newline>  "controlAction": 2,\<newline>  "variantShow": 7,\<newline>  "variantAction": 3\<newline>}''\<close>
  by (simp add: JSON_stringify_def QuoteJSONString_def QuoteJSONChar_def String_small)

text \<open>
  C7, as the code has it. With the counters at 5, 2, 7 and 3 the result endpoint answers
  with a JSON object of four fields, \<^verbatim>\<open>controlShow\<close>, \<^verbatim>\<open>controlAction\<close>,
  \<^verbatim>\<open>variantShow\<close> and \<^verbatim>\<open>variantAction\<close>, whose values are the strings
  \<^verbatim>\<open>"5"\<close>, \<^verbatim>\<open>"2"\<close>, \<^verbatim>\<open>"7"\<close> and \<^verbatim>\<open>"3"\<close> (the texts of the counters'
  responses), printed one field per line with an indentation of two spaces. No counter
  changes.
\<close>

theorem result_fields_are_strings:
  assumes \<open>pathname r = RESULT_PATH\<close>
    and \<open>this_value (env COUNTER_CONTROL_SHOW) = 5\<close>
    and \<open>this_value (env COUNTER_CONTROL_ACTION) = 2\<close>
    and \<open>this_value (env COUNTER_VARIANT_SHOW) = 7\<close>
    and \<open>this_value (env COUNTER_VARIANT_ACTION) = 3\<close>
  shows \<open>handleRequest origin random r env =
     (env, Inr \<lparr>status = 200,
                headers = [(''content-type'', ''application/json;charset=UTF-8'')],
                body = JSON_stringify
                         [(''controlShow'', JString ''5''), (''controlAction'', JString ''2''),
                          (''variantShow'', JString ''7''), (''variantAction'', JString ''3'')]\<rparr>)
     \<and> JSON_stringify
          [(''controlShow'', JString ''5''), (''controlAction'', JString ''2''),
           (''variantShow'', JString ''7''), (''variantAction'', JString ''3'')]
       = ''{\<newline>  "controlShow": "5",\<newline>  "controlAction": "2",\<newline>  "variantShow": "7",\<newline>  "variantAction": "3"\<newline>}''\<close>
  using assms stringify_strings by (simp add: handle_result String_small result_data_def)

theorem result_fields_are_strings_witness:
  \<open>pathname \<lparr>pathname = RESULT_PATH, cookie = None\<rparr> = RESULT_PATH
   \<and> this_value (tallied_env 5 2 7 3 COUNTER_CONTROL_SHOW) = 5
   \<and> this_value (tallied_env 5 2 7 3 COUNTER_CONTROL_ACTION) = 2
   \<and> this_value (tallied_env 5 2 7 3 COUNTER_VARIANT_SHOW) = 7
   \<and> this_value (tallied_env 5 2 7 3 COUNTER_VARIANT_ACTION) = 3
   \<and> handleRequest echo_origin 0 \<lparr>pathname = RESULT_PATH, cookie = None\<rparr> (tallied_env 5 2 7 3) =
     (tallied_env 5 2 7 3,
      Inr \<lparr>status = 200,
           headers = [(''content-type'', ''application/json;charset=UTF-8'')],
           body = JSON_stringify
                         [(''controlShow'', JString ''5''), (''controlAction'', JString ''2''),
                          (''variantShow'', JString ''7''), (''variantAction'', JString ''3'')]\<rparr>)\<close>
  using result_fields_are_strings [of "\<lparr>pathname = RESULT_PATH, cookie = None\<rparr>" "tallied_env 5 2 7 3" echo_origin 0]
  by (simp add: tallied_env_values)

text \<open>
  C7 as written does not hold: on the binding with the counters at 5, 2, 7 and 3 the body
  is the text above, with quoted values; it is neither what \<^verbatim>\<open>JSON.stringify\<close> gives
  for the object with the four numbers nor the compact text
  \<^verbatim>\<open>{"controlShow":5,"controlAction":2,"variantShow":7,"variantAction":3}\<close>.
\<close>

theorem result_fields_not_integers:
  \<open>snd (handleRequest echo_origin 0 \<lparr>pathname = RESULT_PATH, cookie = None\<rparr> (tallied_env 5 2 7 3))
     = Inr \<lparr>status = 200,
            headers = [(''content-type'', ''application/json;charset=UTF-8'')],
            body = ''{\<newline>  "controlShow": "5",\<newline>  "controlAction": "2",\<newline>  "variantShow": "7",\<newline>  "variantAction": "3"\<newline>}''\<rparr>
   \<and> snd (handleRequest echo_origin 0 \<lparr>pathname = RESULT_PATH, cookie = None\<rparr> (tallied_env 5 2 7 3))
     \<noteq> Inr \<lparr>status = 200,
            headers = [(''content-type'', ''application/json;charset=UTF-8'')],
            body = JSON_stringify
                     [(''controlShow'', JNumber 5), (''controlAction'', JNumber 2),
                      (''variantShow'', JNumber 7), (''variantAction'', JNumber 3)]\<rparr>
   \<and> snd (handleRequest echo_origin 0 \<lparr>pathname = RESULT_PATH, cookie = None\<rparr> (tallied_env 5 2 7 3))
     \<noteq> Inr \<lparr>status = 200,
            headers = [(''content-type'', ''application/json;charset=UTF-8'')],
            body = ''{"controlShow":5,"controlAction":2,"variantShow":7,"variantAction":3}''\<rparr>\<close>
  by (simp add: handle_result tallied_env_values String_small stringify_strings stringify_numbers)

section \<open>Failures of the counter\<close>

text \<open>
  C8, as the code has it. On the entry path the request never fails, whatever the
  storages of the counters do; without a control cookie the response is the page of the
  visitor's group (with the cookie for a new visitor). On the action path the response is
  the redirect when no increment is attempted or the increment succeeds; when the storage
  of the addressed counter rejects the write, the request fails with \<^verbatim>\<open>StorageFailure\<close>.
\<close>

theorem counting_failure_and_response:
  "(pathname r = BASE_PATH \<longrightarrow>
      (\<exists>page. snd (handleRequest origin random r env) = Inr page)
      \<and> (\<not> hasControlCookie r \<longrightarrow>
           snd (handleRequest origin random r env) =
             Inr (if hasVariantCookie r then origin VARIANT_PATH r
                  else if random < 1/2 then setAbTestCookie (origin VARIANT_PATH r) ''variant''
                  else setAbTestCookie (origin CONTROL_PATH r) ''control'')))
   \<and> (pathname r = ACTION_PATH \<longrightarrow>
      snd (handleRequest origin random r env) =
        (if hasControlCookie r \<and> actionNotCountedCookie r then
           if put_fails (this_storage (env COUNTER_CONTROL_ACTION)) then Inl StorageFailure
           else Inr (setActionCountedCookie redirect)
         else if hasVariantCookie r \<and> actionNotCountedCookie r then
           if put_fails (this_storage (env COUNTER_VARIANT_ACTION)) then Inl StorageFailure
           else Inr (setActionCountedCookie redirect)
         else Inr redirect))"
  by (simp add: handle_entry handle_action redirect_def)

theorem counting_failure_and_response_witness:
  "pathname \<lparr>pathname = BASE_PATH, cookie = None\<rparr> = BASE_PATH
   \<and> snd (handleRequest echo_origin 0 \<lparr>pathname = BASE_PATH, cookie = None\<rparr> failing_env)
       = Inr (setAbTestCookie (echo_origin VARIANT_PATH \<lparr>pathname = BASE_PATH, cookie = None\<rparr>) ''variant'')
   \<and> pathname \<lparr>pathname = ACTION_PATH, cookie = Some ''cloudflare_ab_test=variant''\<rparr> = ACTION_PATH
   \<and> snd (handleRequest echo_origin 0 \<lparr>pathname = ACTION_PATH, cookie = Some ''cloudflare_ab_test=variant''\<rparr> fresh_env)
       = Inr (setActionCountedCookie redirect)"
  (is "?h1 \<and> ?c1 \<and> ?h2 \<and> ?c2")
proof -
  have h1: ?h1 and h2: ?h2 by simp_all
  have c1: ?c1
    using counting_failure_and_response [of "\<lparr>pathname = BASE_PATH, cookie = None\<rparr>" echo_origin 0 failing_env]
    by (simp add: no_cookie_sample)
  have c2: ?c2
    using counting_failure_and_response
      [of "\<lparr>pathname = ACTION_PATH, cookie = Some ''cloudflare_ab_test=variant''\<rparr>" echo_origin 0 fresh_env] h2
    by (simp add: hasVariant_sample notCounted_sample fresh_env_writable paths)
  from h1 c1 h2 c2 show ?thesis by blast
qed

text \<open>
  C8 as written does not hold: an action request with a control cookie and no dedup cookie,
  on a binding whose storages reject writes, ends in \<^verbatim>\<open>StorageFailure\<close>, not in the
  redirect.
\<close>

theorem action_fails_on_storage_failure:
  "snd (handleRequest echo_origin 0
          \<lparr>pathname = ACTION_PATH, cookie = Some ''cloudflare_ab_test=control''\<rparr> failing_env)
     = Inl StorageFailure"
  by (simp add: handle_action hasControl_sample notCounted_sample failing_env_def Counter_constructor_def)

section \<open>The entry path without a group cookie\<close>

lemma cookies_differ:
  "setAbTestCookie p ''variant'' \<noteq> setAbTestCookie q ''control''"
proof
  assume "setAbTestCookie p ''variant'' = setAbTestCookie q ''control''"
  then have "headers (setAbTestCookie p ''variant'') = headers (setAbTestCookie q ''control'')"
    by simp
  then show False by (simp add: setAbTestCookie_def COOKIE_NAME_def)
qed

lemma entry_new_visitor:
  assumes "pathname r = BASE_PATH" and "\<not> hasControlCookie r" and "\<not> hasVariantCookie r"
    and "random < 1/2 \<and> key = COUNTER_VARIANT_SHOW \<and> grp = ''variant'' \<and> path = VARIANT_PATH
         \<or> \<not> random < 1/2 \<and> key = COUNTER_CONTROL_SHOW \<and> grp = ''control'' \<and> path = CONTROL_PATH"
    and "safe_integer (this_value (env key))"
  shows "snd (handleRequest origin random r env)
           = Inr ((origin path r)\<lparr>headers := headers (origin path r)
                          @ [(''Set-Cookie'', ''cloudflare_ab_test='' @ grp @ ''; path=/'')]\<rparr>)"
    and "fst (handleRequest origin random r env)
           = env(key := fst (Counter_fetch (env key) ''/increment''))"
    and "this_value (fst (handleRequest origin random r env) key) = this_value (env key) + 1"
    and "\<not> put_fails (this_storage (env key)) \<longrightarrow>
           slot (this_storage (fst (handleRequest origin random r env) key))
             = Some (this_value (env key) + 1)"
    and "\<forall>k. k \<noteq> key \<longrightarrow> fst (handleRequest origin random r env) k = env k"
proof -
  have inc: "pre_increment (this_value (env key)) = this_value (env key) + 1"
    using assms(5) by (rule pre_increment_safe)
  from assms(4) consider
    (variant) "random < 1/2" "key = COUNTER_VARIANT_SHOW" "grp = ''variant''" "path = VARIANT_PATH"
    | (control) "\<not> random < 1/2" "key = COUNTER_CONTROL_SHOW" "grp = ''control''" "path = CONTROL_PATH"
    by blast
  then have eq: "handleRequest origin random r env =
      (env(key := fst (Counter_fetch (env key) ''/increment'')),
       Inr (setAbTestCookie (origin path r) grp))"
  proof cases
    case variant
    with assms(1-3) show ?thesis by (simp add: handle_entry)
  next
    case control
    with assms(1-3) show ?thesis by (simp add: handle_entry)
  qed
  show "snd (handleRequest origin random r env)
           = Inr ((origin path r)\<lparr>headers := headers (origin path r)
                          @ [(''Set-Cookie'', ''cloudflare_ab_test='' @ grp @ ''; path=/'')]\<rparr>)"
    by (simp add: eq setAbTestCookie_def COOKIE_NAME_def)
  show "fst (handleRequest origin random r env)
           = env(key := fst (Counter_fetch (env key) ''/increment''))"
    by (simp add: eq)
  show "this_value (fst (handleRequest origin random r env) key) = this_value (env key) + 1"
    by (simp add: eq Counter_fetch_value inc)
  show "\<not> put_fails (this_storage (env key)) \<longrightarrow>
           slot (this_storage (fst (handleRequest origin random r env) key))
             = Some (this_value (env key) + 1)"
    by (simp add: eq Counter_fetch_increment inc)
  show "\<forall>k. k \<noteq> key \<longrightarrow> fst (handleRequest origin random r env) k = env k"
    by (simp add: eq)
qed

text \<open>
  C4, as the code has it. For a request to \<^verbatim>\<open>/abtest\<close> whose cookie header contains
  neither \<^verbatim>\<open>cloudflare_ab_test=control\<close> nor \<^verbatim>\<open>cloudflare_ab_test=variant\<close> as a
  substring (or that has no cookie header): when the random number is below one half the
  group is variant, otherwise control. The handler makes one increment call on the show
  counter of that group, whose value (a safe integer) goes up by one and is persisted
  when the storage accepts the write, leaves every other counter as it was, and answers
  with the upstream's page of that group plus one header
  \<^verbatim>\<open>Set-Cookie: cloudflare_ab_test=<group>; path=/\<close>, which has no expiry attribute.
  Of the random numbers in \<open>[0, 1)\<close>, those in \<open>[0, 1/2)\<close> give variant and those in
  \<open>[1/2, 1)\<close> give control: two intervals of the same length.
\<close>

theorem unassigned_entry_assigns_and_counts:
  assumes "pathname r = BASE_PATH" and "\<not> hasControlCookie r" and "\<not> hasVariantCookie r"
    and "safe_integer (this_value (env COUNTER_VARIANT_SHOW))"
    and "safe_integer (this_value (env COUNTER_CONTROL_SHOW))"
  shows
    "(random < 1/2 \<longrightarrow>
        snd (handleRequest origin random r env)
          = Inr ((origin VARIANT_PATH r)
                  \<lparr>headers := headers (origin VARIANT_PATH r)
                     @ [(''Set-Cookie'', ''cloudflare_ab_test=variant; path=/'')]\<rparr>)
        \<and> fst (handleRequest origin random r env)
          = env(COUNTER_VARIANT_SHOW := fst (Counter_fetch (env COUNTER_VARIANT_SHOW) ''/increment''))
        \<and> this_value (fst (handleRequest origin random r env) COUNTER_VARIANT_SHOW)
          = this_value (env COUNTER_VARIANT_SHOW) + 1
        \<and> (\<not> put_fails (this_storage (env COUNTER_VARIANT_SHOW)) \<longrightarrow>
             slot (this_storage (fst (handleRequest origin random r env) COUNTER_VARIANT_SHOW))
               = Some (this_value (env COUNTER_VARIANT_SHOW) + 1))
        \<and> (\<forall>key. key \<noteq> COUNTER_VARIANT_SHOW \<longrightarrow> fst (handleRequest origin random r env) key = env key))
     \<and> (\<not> random < 1/2 \<longrightarrow>
        snd (handleRequest origin random r env)
          = Inr ((origin CONTROL_PATH r)
                  \<lparr>headers := headers (origin CONTROL_PATH r)
                     @ [(''Set-Cookie'', ''cloudflare_ab_test=control; path=/'')]\<rparr>)
        \<and> fst (handleRequest origin random r env)
          = env(COUNTER_CONTROL_SHOW := fst (Counter_fetch (env COUNTER_CONTROL_SHOW) ''/increment''))
        \<and> this_value (fst (handleRequest origin random r env) COUNTER_CONTROL_SHOW)
          = this_value (env COUNTER_CONTROL_SHOW) + 1
        \<and> (\<not> put_fails (this_storage (env COUNTER_CONTROL_SHOW)) \<longrightarrow>
             slot (this_storage (fst (handleRequest origin random r env) COUNTER_CONTROL_SHOW))
               = Some (this_value (env COUNTER_CONTROL_SHOW) + 1))
        \<and> (\<forall>key. key \<noteq> COUNTER_CONTROL_SHOW \<longrightarrow> fst (handleRequest origin random r env) key = env key))
     \<and> {x. 0 \<le> x \<and> x < 1 \<and> snd (handleRequest origin x r env)
                                  = Inr (setAbTestCookie (origin VARIANT_PATH r) ''variant'')}
         = {0 ..< 1/2}
     \<and> {x. 0 \<le> x \<and> x < 1 \<and> snd (handleRequest origin x r env)
                                  = Inr (setAbTestCookie (origin CONTROL_PATH r) ''control'')}
         = {1/2 ..< 1}"
proof -
  have v: "x < 1/2 \<Longrightarrow> snd (handleRequest origin x r env)
      = Inr (setAbTestCookie (origin VARIANT_PATH r) ''variant'')" for x :: real
    using assms(1-3) by (simp add: handle_entry)
  have c: "\<not> x < 1/2 \<Longrightarrow> snd (handleRequest origin x r env)
      = Inr (setAbTestCookie (origin CONTROL_PATH r) ''control'')" for x :: real
    using assms(1-3) by (simp add: handle_entry)
  have s1: "{x. 0 \<le> x \<and> x < 1 \<and> snd (handleRequest origin x r env)
                = Inr (setAbTestCookie (origin VARIANT_PATH r) ''variant'')} = {0 ..< 1/2}"
  proof (rule set_eqI)
    fix x :: real
    show "x \<in> {x. 0 \<le> x \<and> x < 1 \<and> snd (handleRequest origin x r env)
                = Inr (setAbTestCookie (origin VARIANT_PATH r) ''variant'')} \<longleftrightarrow> x \<in> {0 ..< 1/2}"
    proof (cases "x < 1/2")
      case True
      then show ?thesis by (simp add: v)
    next
      case False
      then show ?thesis using cookies_differ [of "origin VARIANT_PATH r" "origin CONTROL_PATH r"]
        by (auto simp: c)
    qed
  qed
  have s2: "{x. 0 \<le> x \<and> x < 1 \<and> snd (handleRequest origin x r env)
                = Inr (setAbTestCookie (origin CONTROL_PATH r) ''control'')} = {1/2 ..< 1}"
  proof (rule set_eqI)
    fix x :: real
    show "x \<in> {x. 0 \<le> x \<and> x < 1 \<and> snd (handleRequest origin x r env)
                = Inr (setAbTestCookie (origin CONTROL_PATH r) ''control'')} \<longleftrightarrow> x \<in> {1/2 ..< 1}"
    proof (cases "x < 1/2")
      case True
      then show ?thesis using cookies_differ [of "origin VARIANT_PATH r" "origin CONTROL_PATH r"]
        by (auto simp: v)
    next
      case False
      then show ?thesis by (auto simp: c)
    qed
  qed
  have m: ?thesis if lt: "random < 1/2"
  proof -
    have "random < 1/2 \<and> COUNTER_VARIANT_SHOW = COUNTER_VARIANT_SHOW \<and> ''variant'' = ''variant''
          \<and> VARIANT_PATH = VARIANT_PATH
        \<or> \<not> random < 1/2 \<and> COUNTER_VARIANT_SHOW = COUNTER_CONTROL_SHOW \<and> ''variant'' = ''control''
          \<and> VARIANT_PATH = CONTROL_PATH"
      using lt by simp
    note n = entry_new_visitor [where r = r and random = random and env = env and origin = origin
        and key = COUNTER_VARIANT_SHOW and grp = "''variant''" and path = VARIANT_PATH,
        OF assms(1-3) this assms(4)]
    have
      "snd (handleRequest origin random r env)
          = Inr ((origin VARIANT_PATH r)
                  \<lparr>headers := headers (origin VARIANT_PATH r)
                     @ [(''Set-Cookie'', ''cloudflare_ab_test=variant; path=/'')]\<rparr>)"
      "fst (handleRequest origin random r env)
          = env(COUNTER_VARIANT_SHOW := fst (Counter_fetch (env COUNTER_VARIANT_SHOW) ''/increment''))"
      "this_value (fst (handleRequest origin random r env) COUNTER_VARIANT_SHOW)
          = this_value (env COUNTER_VARIANT_SHOW) + 1"
      "\<not> put_fails (this_storage (env COUNTER_VARIANT_SHOW)) \<longrightarrow>
             slot (this_storage (fst (handleRequest origin random r env) COUNTER_VARIANT_SHOW))
               = Some (this_value (env COUNTER_VARIANT_SHOW) + 1)"
      "\<forall>key. key \<noteq> COUNTER_VARIANT_SHOW \<longrightarrow> fst (handleRequest origin random r env) key = env key"
      using n by simp_all
    with lt s1 s2 show ?thesis by blast
  qed
  have n: ?thesis if ge: "\<not> random < 1/2"
  proof -
    have "random < 1/2 \<and> COUNTER_CONTROL_SHOW = COUNTER_VARIANT_SHOW \<and> ''control'' = ''variant''
          \<and> CONTROL_PATH = VARIANT_PATH
        \<or> \<not> random < 1/2 \<and> COUNTER_CONTROL_SHOW = COUNTER_CONTROL_SHOW \<and> ''control'' = ''control''
          \<and> CONTROL_PATH = CONTROL_PATH"
      using ge by simp
    note n = entry_new_visitor [where r = r and random = random and env = env and origin = origin
        and key = COUNTER_CONTROL_SHOW and grp = "''control''" and path = CONTROL_PATH,
        OF assms(1-3) this assms(5)]
    have
      "snd (handleRequest origin random r env)
          = Inr ((origin CONTROL_PATH r)
                  \<lparr>headers := headers (origin CONTROL_PATH r)
                     @ [(''Set-Cookie'', ''cloudflare_ab_test=control; path=/'')]\<rparr>)"
      "fst (handleRequest origin random r env)
          = env(COUNTER_CONTROL_SHOW := fst (Counter_fetch (env COUNTER_CONTROL_SHOW) ''/increment''))"
      "this_value (fst (handleRequest origin random r env) COUNTER_CONTROL_SHOW)
          = this_value (env COUNTER_CONTROL_SHOW) + 1"
      "\<not> put_fails (this_storage (env COUNTER_CONTROL_SHOW)) \<longrightarrow>
             slot (this_storage (fst (handleRequest origin random r env) COUNTER_CONTROL_SHOW))
               = Some (this_value (env COUNTER_CONTROL_SHOW) + 1)"
      "\<forall>key. key \<noteq> COUNTER_CONTROL_SHOW \<longrightarrow> fst (handleRequest origin random r env) key = env key"
      using n by simp_all
    with ge s1 s2 show ?thesis by blast
  qed
  from m n show ?thesis by blast
qed

lemma fresh_env_value: "this_value (fresh_env key) = 0"
  by (simp add: fresh_env_def fresh_storage_def Counter_constructor_def storage_get_def)

theorem unassigned_entry_assigns_and_counts_witness:
  "pathname \<lparr>pathname = BASE_PATH, cookie = None\<rparr> = BASE_PATH
   \<and> \<not> hasControlCookie \<lparr>pathname = BASE_PATH, cookie = None\<rparr>
   \<and> \<not> hasVariantCookie \<lparr>pathname = BASE_PATH, cookie = None\<rparr>
   \<and> safe_integer (this_value (fresh_env COUNTER_VARIANT_SHOW))
   \<and> safe_integer (this_value (fresh_env COUNTER_CONTROL_SHOW))
   \<and> (1/4 :: real) < 1/2
   \<and> \<not> put_fails (this_storage (fresh_env COUNTER_VARIANT_SHOW))
   \<and> snd (handleRequest echo_origin (1/4) \<lparr>pathname = BASE_PATH, cookie = None\<rparr> fresh_env)
       = Inr \<lparr>status = 200, headers = [(''Set-Cookie'', ''cloudflare_ab_test=variant; path=/'')],
              body = ''/abtest/variant''\<rparr>
   \<and> this_value (fst (handleRequest echo_origin (1/4) \<lparr>pathname = BASE_PATH, cookie = None\<rparr> fresh_env)
        COUNTER_VARIANT_SHOW) = 1
   \<and> slot (this_storage (fst (handleRequest echo_origin (1/4) \<lparr>pathname = BASE_PATH, cookie = None\<rparr> fresh_env)
        COUNTER_VARIANT_SHOW)) = Some 1
   \<and> fst (handleRequest echo_origin (1/4) \<lparr>pathname = BASE_PATH, cookie = None\<rparr> fresh_env)
        COUNTER_CONTROL_SHOW = fresh_env COUNTER_CONTROL_SHOW"
  (is "?h1 \<and> ?h2 \<and> ?h3 \<and> ?s1 \<and> ?s2 \<and> ?h4 \<and> ?h5 \<and> ?c1 \<and> ?c2 \<and> ?c3 \<and> ?c4")
proof -
  have h1: ?h1 and h2: ?h2 and h3: ?h3 and h4: ?h4 and h5: ?h5
    by (simp_all add: no_cookie_sample fresh_env_writable)
  have s1: ?s1 and s2: ?s2 by (simp_all add: fresh_env_value safe_small)
  have z: "this_value (fresh_env COUNTER_VARIANT_SHOW) = 0" by (rule fresh_env_value)
  have k: "COUNTER_CONTROL_SHOW \<noteq> COUNTER_VARIANT_SHOW" by (simp add: counters)
  have e: "echo_origin VARIANT_PATH \<lparr>pathname = BASE_PATH, cookie = None\<rparr>
      = \<lparr>status = 200, headers = [], body = ''/abtest/variant''\<rparr>"
    by (simp add: echo_origin_def new_Response_def paths)
  note t = unassigned_entry_assigns_and_counts [OF h1 h2 h3 s1 s2, of "1/4" echo_origin]
  let ?r = "\<lparr>pathname = BASE_PATH, cookie = None\<rparr>"
  let ?env' = "fst (handleRequest echo_origin (1/4) ?r fresh_env)"
  from t h4 have t1: "snd (handleRequest echo_origin (1/4) ?r fresh_env)
          = Inr ((echo_origin VARIANT_PATH ?r)
                  \<lparr>headers := headers (echo_origin VARIANT_PATH ?r)
                     @ [(''Set-Cookie'', ''cloudflare_ab_test=variant; path=/'')]\<rparr>)"
    and t2: "this_value (?env' COUNTER_VARIANT_SHOW) = this_value (fresh_env COUNTER_VARIANT_SHOW) + 1"
    and t3: "\<not> put_fails (this_storage (fresh_env COUNTER_VARIANT_SHOW)) \<longrightarrow>
             slot (this_storage (?env' COUNTER_VARIANT_SHOW))
               = Some (this_value (fresh_env COUNTER_VARIANT_SHOW) + 1)"
    and t4: "\<forall>key. key \<noteq> COUNTER_VARIANT_SHOW \<longrightarrow> ?env' key = fresh_env key"
    by blast+
  from t1 have c1: ?c1 by (simp add: e)
  from t2 have c2: ?c2 by (simp add: z)
  from t3 h5 have c3: ?c3 by (simp add: z)
  from t4 k have c4: ?c4 by blast
  from h1 h2 h3 s1 s2 h4 h5 c1 c2 c3 c4 show ?thesis by blast
qed

text \<open>
  C4 as written does not hold. The header \<^verbatim>\<open>Cookie: x_cloudflare_ab_test=control\<close>
  carries one cookie, named \<^verbatim>\<open>x_cloudflare_ab_test\<close>, and no assignment cookie; the
  handler takes the control branch all the same: the counters stay as they are and the
  response is the upstream's, with no \<^verbatim>\<open>Set-Cookie\<close> header.
\<close>

theorem unassigned_request_not_counted:
  "spec_group \<lparr>pathname = BASE_PATH, cookie = Some ''x_cloudflare_ab_test=control''\<rparr> = None
   \<and> handleRequest echo_origin (1/4)
        \<lparr>pathname = BASE_PATH, cookie = Some ''x_cloudflare_ab_test=control''\<rparr> fresh_env
      = (fresh_env, Inr \<lparr>status = 200, headers = [], body = ''/abtest''\<rparr>)"
proof -
  have "hasControlCookie \<lparr>pathname = BASE_PATH, cookie = Some ''x_cloudflare_ab_test=control''\<rparr>"
    by (simp add: hasControlCookie_def COOKIE_NAME_def)
  then have "handleRequest echo_origin (1/4)
        \<lparr>pathname = BASE_PATH, cookie = Some ''x_cloudflare_ab_test=control''\<rparr> fresh_env
      = (fresh_env, Inr \<lparr>status = 200, headers = [], body = ''/abtest''\<rparr>)"
    by (simp add: handle_entry echo_origin_def new_Response_def paths)
  moreover have
    "spec_group \<lparr>pathname = BASE_PATH, cookie = Some ''x_cloudflare_ab_test=control''\<rparr> = None"
    by (simp add: spec_group_def spec_cookie_def spec_cookie_pairs_def)
  ultimately show ?thesis by simp
qed

section \<open>Counting an action once\<close>

lemma action_pair:
  assumes "pathname r1 = ACTION_PATH" and "pathname r2 = ACTION_PATH"
    and "hasControlCookie r1 \<and> key = COUNTER_CONTROL_ACTION
         \<or> \<not> hasControlCookie r1 \<and> hasVariantCookie r1 \<and> key = COUNTER_VARIANT_ACTION"
    and "actionNotCountedCookie r1"
    and "cookie r2 = Some c2" and "str_includes c2 ''cloudflare_ab_test_counted=true''"
    and "\<not> put_fails (this_storage (env key))"
    and "safe_integer (this_value (env key))"
  shows "snd (handleRequest origin x r1 env)
           = Inr (redirect\<lparr>headers := headers redirect
                            @ [(''Set-Cookie'', ''cloudflare_ab_test_counted=true; path=/'')]\<rparr>)
         \<and> fst (handleRequest origin x r1 env)
           = env(key := fst (Counter_fetch (env key) ''/increment''))
         \<and> this_value (fst (handleRequest origin x r1 env) key) = this_value (env key) + 1
         \<and> slot (this_storage (fst (handleRequest origin x r1 env) key))
           = Some (this_value (env key) + 1)
         \<and> (\<forall>k. k \<noteq> key \<longrightarrow> fst (handleRequest origin x r1 env) k = env k)
         \<and> handleRequest origin y r2 (fst (handleRequest origin x r1 env))
           = (fst (handleRequest origin x r1 env), Inr redirect)"
proof -
  have inc: "pre_increment (this_value (env key)) = this_value (env key) + 1"
    using assms(8) by (rule pre_increment_safe)
  from assms(3) consider
    (control) "hasControlCookie r1" "key = COUNTER_CONTROL_ACTION"
    | (variant) "\<not> hasControlCookie r1" "hasVariantCookie r1" "key = COUNTER_VARIANT_ACTION"
    by blast
  then have first: "handleRequest origin x r1 env =
      (env(key := fst (Counter_fetch (env key) ''/increment'')),
       Inr (setActionCountedCookie redirect))"
  proof cases
    case control
    with assms(1,4,7) show ?thesis by (simp add: handle_action redirect_def)
  next
    case variant
    with assms(1,4,7) show ?thesis by (simp add: handle_action redirect_def)
  qed
  have "\<not> actionNotCountedCookie r2"
    using assms(5,6) by (simp add: actionNotCountedCookie_def)
  then have second: "handleRequest origin y r2 env1 = (env1, Inr redirect)" for env1
    using assms(2) by (simp add: handle_action redirect_def)
  from first second assms(7) show ?thesis
    by (simp add: setActionCountedCookie_def Counter_fetch_increment inc)
qed

text \<open>
  C5, as the code has it. The first request goes to the action path with a cookie header
  that contains \<^verbatim>\<open>cloudflare_ab_test=control\<close> or \<^verbatim>\<open>cloudflare_ab_test=variant\<close> as
  a substring and does not contain \<^verbatim>\<open>cloudflare_ab_test_counted=true\<close>. Then one
  action counter goes up by one and is persisted: \<^verbatim>\<open>control-action\<close> when the header
  contains the control substring, \<^verbatim>\<open>variant-action\<close> when it contains only the variant
  one; no other counter changes, and the response is the redirect with the dedup cookie.
  A second request to the action path whose header contains
  \<^verbatim>\<open>cloudflare_ab_test_counted=true\<close> changes no counter and gets the redirect. (The
  counters hold safe integers and their storages accept the write.)
\<close>

theorem action_counted_once:
  assumes "pathname r1 = ACTION_PATH" and "pathname r2 = ACTION_PATH"
    and "hasControlCookie r1 \<or> hasVariantCookie r1"
    and "actionNotCountedCookie r1"
    and "cookie r2 = Some c2" and "str_includes c2 ''cloudflare_ab_test_counted=true''"
    and "\<not> put_fails (this_storage (env COUNTER_CONTROL_ACTION))"
    and "\<not> put_fails (this_storage (env COUNTER_VARIANT_ACTION))"
    and "safe_integer (this_value (env COUNTER_CONTROL_ACTION))"
    and "safe_integer (this_value (env COUNTER_VARIANT_ACTION))"
  shows "(hasControlCookie r1 \<longrightarrow>
           snd (handleRequest origin x r1 env)
             = Inr (redirect\<lparr>headers := headers redirect
                              @ [(''Set-Cookie'', ''cloudflare_ab_test_counted=true; path=/'')]\<rparr>)
           \<and> fst (handleRequest origin x r1 env)
             = env(COUNTER_CONTROL_ACTION := fst (Counter_fetch (env COUNTER_CONTROL_ACTION) ''/increment''))
           \<and> this_value (fst (handleRequest origin x r1 env) COUNTER_CONTROL_ACTION)
             = this_value (env COUNTER_CONTROL_ACTION) + 1
           \<and> slot (this_storage (fst (handleRequest origin x r1 env) COUNTER_CONTROL_ACTION))
             = Some (this_value (env COUNTER_CONTROL_ACTION) + 1)
           \<and> (\<forall>k. k \<noteq> COUNTER_CONTROL_ACTION \<longrightarrow> fst (handleRequest origin x r1 env) k = env k)
           \<and> handleRequest origin y r2 (fst (handleRequest origin x r1 env))
             = (fst (handleRequest origin x r1 env), Inr redirect))
       \<and> (\<not> hasControlCookie r1 \<longrightarrow>
           snd (handleRequest origin x r1 env)
             = Inr (redirect\<lparr>headers := headers redirect
                              @ [(''Set-Cookie'', ''cloudflare_ab_test_counted=true; path=/'')]\<rparr>)
           \<and> fst (handleRequest origin x r1 env)
             = env(COUNTER_VARIANT_ACTION := fst (Counter_fetch (env COUNTER_VARIANT_ACTION) ''/increment''))
           \<and> this_value (fst (handleRequest origin x r1 env) COUNTER_VARIANT_ACTION)
             = this_value (env COUNTER_VARIANT_ACTION) + 1
           \<and> slot (this_storage (fst (handleRequest origin x r1 env) COUNTER_VARIANT_ACTION))
             = Some (this_value (env COUNTER_VARIANT_ACTION) + 1)
           \<and> (\<forall>k. k \<noteq> COUNTER_VARIANT_ACTION \<longrightarrow> fst (handleRequest origin x r1 env) k = env k)
           \<and> handleRequest origin y r2 (fst (handleRequest origin x r1 env))
             = (fst (handleRequest origin x r1 env), Inr redirect))"
proof (intro conjI impI)
  assume c: "hasControlCookie r1"
  then have "hasControlCookie r1 \<and> COUNTER_CONTROL_ACTION = COUNTER_CONTROL_ACTION
      \<or> \<not> hasControlCookie r1 \<and> hasVariantCookie r1 \<and> COUNTER_CONTROL_ACTION = COUNTER_VARIANT_ACTION"
    by simp
  note p = action_pair [where ?r1.0 = r1 and ?r2.0 = r2 and key = COUNTER_CONTROL_ACTION and env = env
      and ?c2.0 = c2 and origin = origin and x = x and y = y,
      OF assms(1,2) this assms(4,5,6,7,9)]
  from p show "snd (handleRequest origin x r1 env)
             = Inr (redirect\<lparr>headers := headers redirect
                              @ [(''Set-Cookie'', ''cloudflare_ab_test_counted=true; path=/'')]\<rparr>)"
    and "fst (handleRequest origin x r1 env)
             = env(COUNTER_CONTROL_ACTION := fst (Counter_fetch (env COUNTER_CONTROL_ACTION) ''/increment''))"
    and "this_value (fst (handleRequest origin x r1 env) COUNTER_CONTROL_ACTION)
             = this_value (env COUNTER_CONTROL_ACTION) + 1"
    and "slot (this_storage (fst (handleRequest origin x r1 env) COUNTER_CONTROL_ACTION))
             = Some (this_value (env COUNTER_CONTROL_ACTION) + 1)"
    and "\<forall>k. k \<noteq> COUNTER_CONTROL_ACTION \<longrightarrow> fst (handleRequest origin x r1 env) k = env k"
    and "handleRequest origin y r2 (fst (handleRequest origin x r1 env))
             = (fst (handleRequest origin x r1 env), Inr redirect)"
    by blast+
next
  assume c: "\<not> hasControlCookie r1"
  with assms(3) have "hasControlCookie r1 \<and> COUNTER_VARIANT_ACTION = COUNTER_CONTROL_ACTION
      \<or> \<not> hasControlCookie r1 \<and> hasVariantCookie r1 \<and> COUNTER_VARIANT_ACTION = COUNTER_VARIANT_ACTION"
    by simp
  note p = action_pair [where ?r1.0 = r1 and ?r2.0 = r2 and key = COUNTER_VARIANT_ACTION and env = env
      and ?c2.0 = c2 and origin = origin and x = x and y = y,
      OF assms(1,2) this assms(4,5,6,8,10)]
  from p show "snd (handleRequest origin x r1 env)
             = Inr (redirect\<lparr>headers := headers redirect
                              @ [(''Set-Cookie'', ''cloudflare_ab_test_counted=true; path=/'')]\<rparr>)"
    and "fst (handleRequest origin x r1 env)
             = env(COUNTER_VARIANT_ACTION := fst (Counter_fetch (env COUNTER_VARIANT_ACTION) ''/increment''))"
    and "this_value (fst (handleRequest origin x r1 env) COUNTER_VARIANT_ACTION)
             = this_value (env COUNTER_VARIANT_ACTION) + 1"
    and "slot (this_storage (fst (handleRequest origin x r1 env) COUNTER_VARIANT_ACTION))
             = Some (this_value (env COUNTER_VARIANT_ACTION) + 1)"
    and "\<forall>k. k \<noteq> COUNTER_VARIANT_ACTION \<longrightarrow> fst (handleRequest origin x r1 env) k = env k"
    and "handleRequest origin y r2 (fst (handleRequest origin x r1 env))
             = (fst (handleRequest origin x r1 env), Inr redirect)"
    by blast+
qed

theorem action_counted_once_witness:
  "pathname \<lparr>pathname = ACTION_PATH, cookie = Some ''cloudflare_ab_test=variant''\<rparr> = ACTION_PATH
   \<and> pathname \<lparr>pathname = ACTION_PATH,
                cookie = Some ''cloudflare_ab_test=variant; cloudflare_ab_test_counted=true''\<rparr> = ACTION_PATH
   \<and> hasVariantCookie \<lparr>pathname = ACTION_PATH, cookie = Some ''cloudflare_ab_test=variant''\<rparr>
   \<and> \<not> hasControlCookie \<lparr>pathname = ACTION_PATH, cookie = Some ''cloudflare_ab_test=variant''\<rparr>
   \<and> actionNotCountedCookie \<lparr>pathname = ACTION_PATH, cookie = Some ''cloudflare_ab_test=variant''\<rparr>
   \<and> str_includes ''cloudflare_ab_test=variant; cloudflare_ab_test_counted=true''
        ''cloudflare_ab_test_counted=true''
   \<and> \<not> put_fails (this_storage (fresh_env COUNTER_CONTROL_ACTION))
   \<and> \<not> put_fails (this_storage (fresh_env COUNTER_VARIANT_ACTION))
   \<and> safe_integer (this_value (fresh_env COUNTER_CONTROL_ACTION))
   \<and> safe_integer (this_value (fresh_env COUNTER_VARIANT_ACTION))
   \<and> this_value (fst (handleRequest echo_origin 0
          \<lparr>pathname = ACTION_PATH, cookie = Some ''cloudflare_ab_test=variant''\<rparr> fresh_env)
        COUNTER_VARIANT_ACTION) = this_value (fresh_env COUNTER_VARIANT_ACTION) + 1
   \<and> handleRequest echo_origin 0
        \<lparr>pathname = ACTION_PATH,
          cookie = Some ''cloudflare_ab_test=variant; cloudflare_ab_test_counted=true''\<rparr>
        (fst (handleRequest echo_origin 0
          \<lparr>pathname = ACTION_PATH, cookie = Some ''cloudflare_ab_test=variant''\<rparr> fresh_env))
      = (fst (handleRequest echo_origin 0
          \<lparr>pathname = ACTION_PATH, cookie = Some ''cloudflare_ab_test=variant''\<rparr> fresh_env),
         Inr redirect)"
  (is "?h1 \<and> ?h2 \<and> ?h3 \<and> ?h3' \<and> ?h4 \<and> ?h5 \<and> ?h6 \<and> ?h7 \<and> ?h8 \<and> ?h9 \<and> ?c1 \<and> ?c2")
proof -
  let ?r1 = "\<lparr>pathname = ACTION_PATH, cookie = Some ''cloudflare_ab_test=variant''\<rparr>"
  let ?r2 = "\<lparr>pathname = ACTION_PATH,
               cookie = Some ''cloudflare_ab_test=variant; cloudflare_ab_test_counted=true''\<rparr>"
  have h1: ?h1 and h2: ?h2 and h3: ?h3 and h3': ?h3' and h4: ?h4 and h6: ?h6 and h7: ?h7
    by (simp_all add: hasVariant_sample notCounted_sample fresh_env_writable)
  have h5: ?h5 by simp
  have h8: ?h8 and h9: ?h9 by (simp_all add: fresh_env_value safe_small)
  have d: "hasControlCookie ?r1 \<or> hasVariantCookie ?r1" using h3 by simp
  have c: "cookie ?r2 = Some ''cloudflare_ab_test=variant; cloudflare_ab_test_counted=true''" by simp
  note t = action_counted_once [where ?r1.0 = ?r1 and ?r2.0 = ?r2 and env = fresh_env
      and ?c2.0 = "''cloudflare_ab_test=variant; cloudflare_ab_test_counted=true''"
      and origin = echo_origin and x = 0 and y = 0,
      OF h1 h2 d h4 c h5 h6 h7 h8 h9]
  from t h3' have c1: ?c1 and c2: ?c2 by blast+
  from h1 h2 h3 h3' h4 h5 h6 h7 h8 h9 c1 c2 show ?thesis by blast
qed

text \<open>
  C5 as written does not hold. A visitor whose assignment cookie is
  \<^verbatim>\<open>cloudflare_ab_test=variant\<close> and who also sends a cookie named
  \<^verbatim>\<open>x_cloudflare_ab_test\<close> with the value \<^verbatim>\<open>control\<close> requests the action path:
  the counter of the visitor's group, \<^verbatim>\<open>variant-action\<close>, stays at \<open>0\<close>, and
  \<^verbatim>\<open>control-action\<close> goes up. A visitor assigned to control who also sends a cookie
  named \<^verbatim>\<open>x_cloudflare_ab_test_counted\<close> with the value \<^verbatim>\<open>true\<close>, and no dedup
  cookie, has no action counted at all.
\<close>

theorem action_counts_other_group:
  "spec_group \<lparr>pathname = ACTION_PATH,
                cookie = Some ''cloudflare_ab_test=variant; x_cloudflare_ab_test=control''\<rparr>
     = Some ''variant''
   \<and> \<not> spec_action_counted \<lparr>pathname = ACTION_PATH,
                cookie = Some ''cloudflare_ab_test=variant; x_cloudflare_ab_test=control''\<rparr>
   \<and> this_value (fst (handleRequest echo_origin 0
         \<lparr>pathname = ACTION_PATH,
           cookie = Some ''cloudflare_ab_test=variant; x_cloudflare_ab_test=control''\<rparr> fresh_env)
        COUNTER_VARIANT_ACTION) = 0
   \<and> this_value (fst (handleRequest echo_origin 0
         \<lparr>pathname = ACTION_PATH,
           cookie = Some ''cloudflare_ab_test=variant; x_cloudflare_ab_test=control''\<rparr> fresh_env)
        COUNTER_CONTROL_ACTION) = 1
   \<and> spec_group \<lparr>pathname = ACTION_PATH,
                cookie = Some ''cloudflare_ab_test=control; x_cloudflare_ab_test_counted=true''\<rparr>
     = Some ''control''
   \<and> \<not> spec_action_counted \<lparr>pathname = ACTION_PATH,
                cookie = Some ''cloudflare_ab_test=control; x_cloudflare_ab_test_counted=true''\<rparr>
   \<and> handleRequest echo_origin 0
        \<lparr>pathname = ACTION_PATH,
          cookie = Some ''cloudflare_ab_test=control; x_cloudflare_ab_test_counted=true''\<rparr> fresh_env
      = (fresh_env, Inr redirect)"
proof -
  let ?r = "\<lparr>pathname = ACTION_PATH,
              cookie = Some ''cloudflare_ab_test=variant; x_cloudflare_ab_test=control''\<rparr>"
  let ?q = "\<lparr>pathname = ACTION_PATH,
              cookie = Some ''cloudflare_ab_test=control; x_cloudflare_ab_test_counted=true''\<rparr>"
  have g: "spec_group ?r = Some ''variant''" "\<not> spec_action_counted ?r"
    "spec_group ?q = Some ''control''" "\<not> spec_action_counted ?q"
    by (simp_all add: spec_group_def spec_action_counted_def spec_cookie_def spec_cookie_pairs_def)
  have c: "hasControlCookie ?r" "actionNotCountedCookie ?r"
    by (simp_all add: hasControlCookie_def actionNotCountedCookie_def COOKIE_NAME_def)
  have k: "COUNTER_VARIANT_ACTION \<noteq> COUNTER_CONTROL_ACTION" by (simp add: counters)
  have e: "handleRequest echo_origin 0 ?r fresh_env
      = (fresh_env(COUNTER_CONTROL_ACTION := fst (Counter_fetch (fresh_env COUNTER_CONTROL_ACTION) ''/increment'')),
         Inr (setActionCountedCookie redirect))"
    using c by (simp add: handle_action fresh_env_writable redirect_def)
  have v: "this_value (fst (handleRequest echo_origin 0 ?r fresh_env) COUNTER_VARIANT_ACTION) = 0"
    using k by (simp add: e fresh_env_value)
  have w: "this_value (fst (handleRequest echo_origin 0 ?r fresh_env) COUNTER_CONTROL_ACTION) = 1"
    by (simp add: e Counter_fetch_value fresh_env_value pre_increment_def exact_limit_def)
  have "\<not> actionNotCountedCookie ?q"
    by (simp add: actionNotCountedCookie_def)
  then have n: "handleRequest echo_origin 0 ?q fresh_env = (fresh_env, Inr redirect)"
    by (simp add: handle_action redirect_def)
  from g v w n show ?thesis by blast
qed

section \<open>The decimal rendering is injective\<close>

lemma digit_value_digit_char: "d < 10 \<Longrightarrow> digit_value (digit_char d) = d"
proof -
  assume "d < 10"
  then have "d \<in> {0, 1, 2, 3, 4, 5, 6, 7, 8, 9}" by auto
  then show ?thesis
    by (auto simp: digit_value_def digit_char_def)
qed

lemma digit_char_not_minus: "d < 10 \<Longrightarrow> digit_char d \<noteq> CHR ''-''"
proof -
  assume "d < 10"
  then have "d \<in> {0, 1, 2, 3, 4, 5, 6, 7, 8, 9}" by auto
  then show ?thesis
    by (auto simp: digit_char_def)
qed

lemma number_of_digits: "number_of (digits n) = n"
proof (induction n rule: digits.induct)
  case (1 n)
  show ?case
  proof (cases "n < 10")
    case True
    then show ?thesis
      by (simp add: digits.simps [of n] number_of_def digit_value_digit_char)
  next
    case False
    with 1 have "number_of (digits (n div 10)) = n div 10" by simp
    with False show ?thesis
      by (simp add: digits.simps [of n] number_of_def digit_value_digit_char)
  qed
qed

lemma hd_digits: "digits n \<noteq> [] \<and> hd (digits n) \<noteq> CHR ''-''"
proof (induction n rule: digits.induct)
  case (1 n)
  show ?case
  proof (cases "n < 10")
    case True
    then show ?thesis
      by (simp add: digits.simps [of n] digit_char_not_minus)
  next
    case False
    with 1 show ?thesis
      by (simp add: digits.simps [of n])
  qed
qed

lemma digits_inj: "digits m = digits n \<Longrightarrow> m = n"
  by (metis number_of_digits)

lemma String_inj: "inj String"
proof (rule injI)
  fix a b :: int
  assume eq: "String a = String b"
  have neg: "False" if "x < 0" "\<not> y < 0" "String x = String y" for x y
  proof -
    from that have "CHR ''-'' # digits (nat (- x)) = digits (nat y)"
      by (simp add: String_def)
    then have "hd (digits (nat y)) = CHR ''-''" by (metis list.sel(1))
    with hd_digits show False by blast
  qed
  show "a = b"
  proof (cases "a < 0"; cases "b < 0")
    assume "a < 0" "b < 0"
    with eq have "digits (nat (- a)) = digits (nat (- b))" by (simp add: String_def)
    then have "nat (- a) = nat (- b)" by (rule digits_inj)
    with \<open>a < 0\<close> \<open>b < 0\<close> show ?thesis by simp
  next
    assume "a < 0" "\<not> b < 0"
    with eq neg show ?thesis by blast
  next
    assume "\<not> a < 0" "b < 0"
    with eq neg [of b a] show ?thesis by simp
  next
    assume "\<not> a < 0" "\<not> b < 0"
    with eq have "digits (nat a) = digits (nat b)" by (simp add: String_def)
    then have "nat a = nat b" by (rule digits_inj)
    with \<open>\<not> a < 0\<close> \<open>\<not> b < 0\<close> show ?thesis by simp
  qed
qed

section \<open>Concurrent increments\<close>

lemma answers_Suc: "mset (answers V (Suc N)) = {#Inr (new_Response (String (V + 1)))#} + mset (answers (V + 1) N)"
proof -
  have "[V + 1 .. V + int (Suc N)] = (V + 1) # [V + 1 + 1 .. V + 1 + int N]"
    by (subst upto.simps) (simp add: add.commute add.left_commute)
  then show ?thesis by (simp add: answers_def)
qed

lemma distinct_answers: "distinct (answers V N)"
proof -
  have "inj (\<lambda>v. (Inr (new_Response (String v)) :: error + response))"
  proof (rule injI)
    fix a b
    assume "(Inr (new_Response (String a)) :: error + response) = Inr (new_Response (String b))"
    then have "String a = String b" by (simp add: new_Response_def)
    then show "a = b" using String_inj by (simp add: inj_def)
  qed
  then have "inj_on (\<lambda>v. (Inr (new_Response (String v)) :: error + response)) (set [V + 1 .. V + int N])"
    by (rule inj_on_subset) simp
  then show ?thesis
    unfolding answers_def by (simp add: distinct_map)
qed

lemma step_increment:
  assumes "step (Deliver ''/increment'') s = Some t"
    and "- exact_limit \<le> this_value (obj s)" and "this_value (obj s) < exact_limit"
  shows "this_value (obj t) = this_value (obj s) + 1"
    and "this_storage (obj t) = this_storage (obj s)"
    and "inflight t = inflight s @ [(delivered s, this_value (obj s) + 1, this_value (obj s) + 1)]"
    and "results t = results s"
  using assms by (auto simp: fetch_before_await_def pre_increment_exact)

lemma step_PutDone:
  assumes "step PutDone s = Some t" "\<not> put_fails (this_storage (obj s))"
  shows "\<exists>i currentValue w rest. inflight s = (i, currentValue, w) # rest
           \<and> inflight t = rest
           \<and> results t = results s @ [(i, Inr (fetch_after_await currentValue))]
           \<and> this_value (obj t) = this_value (obj s)
           \<and> this_storage (obj t) = (this_storage (obj s))\<lparr>slot := Some w\<rparr>"
  using assms by (auto simp: storage_put_def split: list.splits)

lemma increments_invariant:
  assumes "run es s = Some t"
    and "\<forall>e\<in>set es. e = Deliver ''/increment'' \<or> e = PutDone"
    and "\<not> put_fails (this_storage (obj s))"
    and "- exact_limit \<le> this_value (obj s)"
    and "this_value (obj s) + int (count_list es (Deliver ''/increment'')) \<le> exact_limit"
  shows "this_value (obj t) = this_value (obj s) + int (count_list es (Deliver ''/increment''))
       \<and> \<not> put_fails (this_storage (obj t))
       \<and> ledger t = ledger s + mset (answers (this_value (obj s)) (count_list es (Deliver ''/increment'')))
       \<and> latest t = (if count_list es (Deliver ''/increment'') = 0 then latest s
                     else Some (this_value (obj s) + int (count_list es (Deliver ''/increment''))))"
  using assms
proof (induction es arbitrary: s)
  case Nil
  then show ?case by (simp add: answers_def)
next
  case (Cons e es)
  from Cons.prems(1) obtain u where u: "step e s = Some u" "run es u = Some t"
    by (auto split: option.splits)
  from Cons.prems(2) have rest: "\<forall>e\<in>set es. e = Deliver ''/increment'' \<or> e = PutDone" by simp
  from Cons.prems(2) consider "e = Deliver ''/increment''" | "e = PutDone" by auto
  then show ?case
  proof cases
    case 1
    from Cons.prems(5) 1 have below: "this_value (obj s) < exact_limit" by simp
    note st = step_increment [OF u(1) [unfolded 1] Cons.prems(4) below]
    have nf: "\<not> put_fails (this_storage (obj u))" using st Cons.prems(3) by simp
    have lo: "- exact_limit \<le> this_value (obj u)" using st(1) Cons.prems(4) by simp
    have hi: "this_value (obj u) + int (count_list es (Deliver ''/increment'')) \<le> exact_limit"
      using st(1) Cons.prems(5) 1 by simp
    have lg: "ledger u = ledger s + {#Inr (new_Response (String (this_value (obj s) + 1)))#}"
      using st by (simp add: ledger_def fetch_after_await_def)
    have lt: "latest u = Some (this_value (obj s) + 1)"
      using st by (simp add: latest_def)
    from Cons.IH [OF u(2) rest nf lo hi] st(1) lg lt 1 show ?thesis
      by (simp add: answers_Suc add.assoc add.commute add.left_commute)
  next
    case 2
    from step_PutDone [OF u(1) [unfolded 2] Cons.prems(3)] obtain i currentValue w rest where
      p: "inflight s = (i, currentValue, w) # rest" "inflight u = rest"
         "results u = results s @ [(i, Inr (fetch_after_await currentValue))]"
         "this_value (obj u) = this_value (obj s)"
         "this_storage (obj u) = (this_storage (obj s))\<lparr>slot := Some w\<rparr>"
      by blast
    have nf: "\<not> put_fails (this_storage (obj u))" using p Cons.prems(3) by simp
    have lg: "ledger u = ledger s" using p by (simp add: ledger_def)
    have lt: "latest u = latest s" using p by (simp add: latest_def)
    have lo: "- exact_limit \<le> this_value (obj u)" using p(4) Cons.prems(4) by simp
    have hi: "this_value (obj u) + int (count_list es (Deliver ''/increment'')) \<le> exact_limit"
      using p(4) Cons.prems(5) 2 by simp
    from Cons.IH [OF u(2) rest nf lo hi] p(4) lg lt 2 show ?thesis by simp
  qed
qed

text \<open>
  C1. A counter is constructed over a storage that accepts writes; its value is \<open>V\<close>.
  \<open>N\<close> increment calls are delivered and their writes complete, interleaved in any
  way, until no call is suspended; \<open>V\<close> is at least \<open>-2\<^sup>5\<^sup>3\<close> and \<open>V + N\<close> at most
  \<open>2\<^sup>5\<^sup>3\<close>, the range in which \<^verbatim>\<open>++\<close> is exact. Then the persisted value, as a new
  instance reads it,
  is \<open>V + N\<close> (and the slot holds \<open>V + N\<close> when \<open>N > 0\<close>), the value in memory is
  \<open>V + N\<close>, and the \<open>N\<close> responses are those for \<open>V + 1, \<dots>, V + N\<close>, each given
  once.
\<close>

theorem concurrent_increments:
  assumes "run es (idle (Counter_constructor st)) = Some t"
    and "\<forall>e\<in>set es. e = Deliver ''/increment'' \<or> e = PutDone"
    and "inflight t = []"
    and "\<not> put_fails st"
    and "- exact_limit \<le> this_value (Counter_constructor st)"
    and "this_value (Counter_constructor st) + int (increments es) \<le> exact_limit"
  shows "this_value (Counter_constructor (this_storage (obj t)))
           = this_value (Counter_constructor st) + int (increments es)
       \<and> (0 < increments es \<longrightarrow>
            slot (this_storage (obj t)) = Some (this_value (Counter_constructor st) + int (increments es)))
       \<and> this_value (obj t) = this_value (Counter_constructor st) + int (increments es)
       \<and> mset (map snd (results t)) = mset (answers (this_value (Counter_constructor st)) (increments es))
       \<and> distinct (map snd (results t))
       \<and> length (results t) = increments es"
proof -
  let ?c = "Counter_constructor st"
  let ?V = "this_value ?c" and ?N = "increments es"
  have nf: "\<not> put_fails (this_storage (obj (idle ?c)))"
    using assms(4) by (simp add: idle_def Counter_constructor_def)
  have lo: "- exact_limit \<le> this_value (obj (idle ?c))"
    using assms(5) by (simp add: idle_def)
  have hi: "this_value (obj (idle ?c)) + int (count_list es (Deliver ''/increment'')) \<le> exact_limit"
    using assms(6) by (simp add: idle_def increments_def)
  note inv = increments_invariant [OF assms(1) assms(2) nf lo hi, folded increments_def]
  have v: "this_value (obj t) = ?V + int ?N"
    using inv by (simp add: idle_def)
  have "ledger t = mset (answers ?V ?N)"
    using inv by (simp add: idle_def ledger_def)
  then have m: "mset (map snd (results t)) = mset (answers ?V ?N)"
    using assms(3) by (simp add: ledger_def)
  have d: "distinct (map snd (results t))"
    using m distinct_answers [of ?V ?N] by (metis mset_eq_imp_distinct_iff)
  have "size (mset (map snd (results t))) = size (mset (answers ?V ?N))"
    using m by simp
  then have l: "length (results t) = ?N" by (simp add: answers_def)
  have lt: "slot (this_storage (obj t)) = (if ?N = 0 then slot st else Some (?V + int ?N))"
    using inv assms(3) by (simp add: latest_def idle_def Counter_constructor_def)
  have V: "?V = (case slot st of None \<Rightarrow> 0 | Some K \<Rightarrow> K)"
    by (simp add: Counter_constructor_def storage_get_def split: option.splits)
  have p: "this_value (Counter_constructor (this_storage (obj t))) = ?V + int ?N"
    using lt V by (simp add: Counter_constructor_def storage_get_def split: option.splits)
  from p lt v m d l show ?thesis by simp
qed


theorem concurrent_increments_witness:
  "run [Deliver ''/increment'', Deliver ''/increment'', PutDone, Deliver ''/increment'', PutDone, PutDone]
       (idle (Counter_constructor \<lparr>slot = Some 4, put_fails = False\<rparr>))
     = Some \<lparr>obj = \<lparr>this_value = 7, this_storage = \<lparr>slot = Some 7, put_fails = False\<rparr>\<rparr>,
             inflight = [],
             results = [(0, Inr (new_Response ''5'')), (1, Inr (new_Response ''6'')),
                        (2, Inr (new_Response ''7''))],
             delivered = 3\<rparr>
   \<and> \<not> put_fails \<lparr>slot = Some 4, put_fails = False\<rparr>
   \<and> increments [Deliver ''/increment'', Deliver ''/increment'', PutDone, Deliver ''/increment'',
                  PutDone, PutDone] = 3
   \<and> this_value (Counter_constructor \<lparr>slot = Some 4, put_fails = False\<rparr>) = 4
   \<and> - exact_limit \<le> (4 :: int) \<and> (4 :: int) + int 3 \<le> exact_limit
   \<and> mset [Inr (new_Response ''5''), Inr (new_Response ''6''), Inr (new_Response ''7'')]
       = mset (answers 4 3)
   \<and> distinct [Inr (new_Response ''5'') :: error + response, Inr (new_Response ''6''),
                Inr (new_Response ''7'')]"
  (is "run ?es (idle (Counter_constructor ?st)) = Some ?t \<and> ?h4 \<and> ?n \<and> ?v \<and> ?lo \<and> ?hi
        \<and> ?c1 \<and> ?c2")
proof -
  have r: "run ?es (idle (Counter_constructor ?st)) = Some ?t"
    by (simp add: idle_def Counter_constructor_def storage_get_def fetch_before_await_def
        fetch_after_await_def storage_put_def String_def digits.simps digit_char_def
        pre_increment_def exact_limit_def)
  have a: "\<forall>e\<in>set ?es. e = Deliver ''/increment'' \<or> e = PutDone" by simp
  have i: "inflight ?t = []" by simp
  have h4: ?h4 by simp
  have n: ?n by (simp add: increments_def)
  have v: ?v by (simp add: Counter_constructor_def storage_get_def)
  have lo: ?lo and hi: ?hi by (simp_all add: exact_limit_def)
  have lo': "- exact_limit \<le> this_value (Counter_constructor ?st)" using lo unfolding v .
  have hi': "this_value (Counter_constructor ?st) + int (increments ?es) \<le> exact_limit"
    using hi unfolding v n .
  note t = concurrent_increments [OF r a i h4 lo' hi']
  from t have "mset (map snd (results ?t)) = mset (answers (this_value (Counter_constructor ?st)) (increments ?es))"
    and "distinct (map snd (results ?t))" by blast+
  then have c1: ?c1 and c2: ?c2 unfolding n v by simp_all
  from r h4 n v lo hi c1 c2 show ?thesis by blast
qed

section \<open>The value an increment returns\<close>

lemma step_Deliver_inflight:
  "\<exists>t. step (Deliver path) s = Some t
       \<and> this_storage (obj t) = this_storage (obj s)
       \<and> (\<exists>new. inflight t = inflight s @ new)"
  by (auto simp: fetch_before_await_def)

lemma awaited_put_completes:
  assumes "inflight s = pre @ (i, currentValue, w) # post"
    and "count_list es PutDone = length pre"
    and "\<not> put_fails (this_storage (obj s))"
  shows "\<exists>t post'. run es s = Some t \<and> inflight t = (i, currentValue, w) # post'
           \<and> \<not> put_fails (this_storage (obj t))"
  using assms
proof (induction es arbitrary: s pre post)
  case Nil
  then show ?case by simp
next
  case (Cons e es)
  show ?case
  proof (cases e)
    case (Deliver path)
    from step_Deliver_inflight [of path s] obtain u new where
      u: "step (Deliver path) s = Some u" "this_storage (obj u) = this_storage (obj s)"
         "inflight u = inflight s @ new" by blast
    have "inflight u = pre @ (i, currentValue, w) # (post @ new)"
      using u(3) Cons.prems(1) by simp
    moreover have "count_list es PutDone = length pre"
      using Cons.prems(2) Deliver by simp
    moreover have "\<not> put_fails (this_storage (obj u))"
      using u(2) Cons.prems(3) by simp
    ultimately obtain t post' where "run es u = Some t" "inflight t = (i, currentValue, w) # post'"
      "\<not> put_fails (this_storage (obj t))"
      using Cons.IH by blast
    with u(1) Deliver show ?thesis by simp
  next
    case PutDone
    with Cons.prems(2) obtain x pre' where pre: "pre = x # pre'" "count_list es PutDone = length pre'"
      by (cases pre) auto
    obtain j c v where x: "x = (j, c, v)" by (cases x)
    let ?u = "s\<lparr>obj := (obj s)\<lparr>this_storage := (this_storage (obj s))\<lparr>slot := Some v\<rparr>\<rparr>,
                inflight := pre' @ (i, currentValue, w) # post,
                results := results s @ [(j, Inr (fetch_after_await c))]\<rparr>"
    have u: "step PutDone s = Some ?u"
      using Cons.prems(1,3) pre x by (simp add: storage_put_def)
    have "inflight ?u = pre' @ (i, currentValue, w) # post" by simp
    moreover have "\<not> put_fails (this_storage (obj ?u))" using Cons.prems(3) by simp
    ultimately obtain t post' where "run es ?u = Some t" "inflight t = (i, currentValue, w) # post'"
      "\<not> put_fails (this_storage (obj t))"
      using Cons.IH pre(2) by blast
    with u PutDone show ?thesis by simp
  qed
qed

lemma run_append:
  "run (es @ fs) s = (case run es s of None \<Rightarrow> None | Some t \<Rightarrow> run fs t)"
  by (induction es arbitrary: s) (auto split: option.splits)

text \<open>
  C2. An increment call delivered in any state of the object (storage accepting writes,
  \<^verbatim>\<open>this.value\<close> at least \<open>-2\<^sup>5\<^sup>3\<close> and below \<open>2\<^sup>5\<^sup>3\<close>, where \<^verbatim>\<open>++\<close> is exact)
  sets \<^verbatim>\<open>this.value\<close> to the value it read plus one. While it is suspended, any other
  calls may be delivered (\<open>es\<close> has any deliveries, and the completions of exactly the
  writes issued before this one). When its own write completes, the slot holds the value
  this call computed, and the call, identified by its number, answers with that value,
  whatever \<^verbatim>\<open>this.value\<close> has become. The run exists: the call does return.
\<close>

theorem increment_returns_own_value:
  assumes "count_list es PutDone = length (inflight s)"
    and "\<not> put_fails (this_storage (obj s))"
    and "- exact_limit \<le> this_value (obj s)" and "this_value (obj s) < exact_limit"
  shows "\<exists>s1 t. step (Deliver ''/increment'') s = Some s1
           \<and> this_value (obj s1) = this_value (obj s) + 1
           \<and> run (Deliver ''/increment'' # es @ [PutDone]) s = Some t
           \<and> last (results t) = (delivered s, Inr (new_Response (String (this_value (obj s) + 1))))
           \<and> slot (this_storage (obj t)) = Some (this_value (obj s) + 1)"
proof -
  let ?v = "this_value (obj s) + 1"
  obtain s1 where s1: "step (Deliver ''/increment'') s = Some s1"
    by (simp add: fetch_before_await_def)
  note st = step_increment [OF s1 assms(3,4)]
  have "inflight s1 = inflight s @ (delivered s, ?v, ?v) # []" using st(3) by simp
  moreover have "\<not> put_fails (this_storage (obj s1))" using st(2) assms(2) by simp
  ultimately obtain u post' where u: "run es s1 = Some u" "inflight u = (delivered s, ?v, ?v) # post'"
    "\<not> put_fails (this_storage (obj u))"
    using awaited_put_completes [of s1 "inflight s" "delivered s" ?v ?v "[]" es] assms(1) by blast
  let ?t = "u\<lparr>obj := (obj u)\<lparr>this_storage := (this_storage (obj u))\<lparr>slot := Some ?v\<rparr>\<rparr>,
              inflight := post',
              results := results u @ [(delivered s, Inr (fetch_after_await ?v))]\<rparr>"
  have "step PutDone u = Some ?t"
    using u(2,3) by (simp add: storage_put_def)
  with s1 u(1) have "run (Deliver ''/increment'' # es @ [PutDone]) s = Some ?t"
    by (simp add: run_append)
  moreover have "last (results ?t) = (delivered s, Inr (new_Response (String ?v)))"
    by (simp add: fetch_after_await_def)
  moreover have "slot (this_storage (obj ?t)) = Some ?v" by simp
  ultimately show ?thesis using s1 st(1) by blast
qed

theorem increment_returns_own_value_witness:
  "count_list [Deliver ''/increment'', Deliver ''/decrement'', Deliver ''/decrement''] PutDone
     = length (inflight (idle (Counter_constructor \<lparr>slot = Some 4, put_fails = False\<rparr>)))
   \<and> \<not> put_fails (this_storage (obj (idle (Counter_constructor \<lparr>slot = Some 4, put_fails = False\<rparr>))))
   \<and> - exact_limit
       \<le> this_value (obj (idle (Counter_constructor \<lparr>slot = Some 4, put_fails = False\<rparr>)))
   \<and> this_value (obj (idle (Counter_constructor \<lparr>slot = Some 4, put_fails = False\<rparr>)))
       < exact_limit
   \<and> run (Deliver ''/increment'' # [Deliver ''/increment'', Deliver ''/decrement'', Deliver ''/decrement'']
            @ [PutDone])
        (idle (Counter_constructor \<lparr>slot = Some 4, put_fails = False\<rparr>))
      = Some \<lparr>obj = \<lparr>this_value = 4, this_storage = \<lparr>slot = Some 5, put_fails = False\<rparr>\<rparr>,
              inflight = [(1, 6, 6), (2, 5, 5), (3, 4, 4)],
              results = [(0, Inr (new_Response ''5''))],
              delivered = 4\<rparr>
   \<and> last (results \<lparr>obj = \<lparr>this_value = 4, this_storage = \<lparr>slot = Some 5, put_fails = False\<rparr>\<rparr>,
              inflight = [(1, 6, 6), (2, 5, 5), (3, 4, 4)],
              results = [(0, Inr (new_Response ''5''))],
              delivered = 4\<rparr>)
      = (delivered (idle (Counter_constructor \<lparr>slot = Some 4, put_fails = False\<rparr>)),
         Inr (new_Response (String
           (this_value (obj (idle (Counter_constructor \<lparr>slot = Some 4, put_fails = False\<rparr>))) + 1))))"
  (is "?h1 \<and> ?h2 \<and> ?h3 \<and> ?h4 \<and> ?r \<and> ?c")
proof -
  let ?s = "idle (Counter_constructor \<lparr>slot = Some 4, put_fails = False\<rparr>)"
  let ?es = "[Deliver ''/increment'', Deliver ''/decrement'', Deliver ''/decrement'']"
  have h1: ?h1 by (simp add: idle_def)
  have h2: ?h2 by (simp add: idle_def Counter_constructor_def)
  have h3: ?h3 and h4: ?h4
    by (simp_all add: idle_def Counter_constructor_def storage_get_def exact_limit_def)
  have r: ?r
    by (simp add: idle_def Counter_constructor_def storage_get_def fetch_before_await_def
        fetch_after_await_def storage_put_def String_def digits.simps digit_char_def
        pre_increment_def pre_decrement_def exact_limit_def)
  from increment_returns_own_value [OF h1 h2 h3 h4] obtain t where
    t: "run (Deliver ''/increment'' # ?es @ [PutDone]) ?s = Some t"
       "last (results t) = (delivered ?s, Inr (new_Response (String (this_value (obj ?s) + 1))))"
    by blast
  from t(1) r have "t = \<lparr>obj = \<lparr>this_value = 4, this_storage = \<lparr>slot = Some 5, put_fails = False\<rparr>\<rparr>,
              inflight = [(1, 6, 6), (2, 5, 5), (3, 4, 4)],
              results = [(0, Inr (new_Response ''5''))],
              delivered = 4\<rparr>" by simp
  with t(2) have c: ?c by blast
  from h1 h2 h3 h4 r c show ?thesis by blast
qed

section \<open>One call at a time\<close>

text \<open>
  \<open>Counter_fetch\<close> is the run of the interleaved model in which the call is delivered
  and, when it suspends, its write completes at once: the same object, the same outcome,
  also when the storage rejects the write.
\<close>

lemma Counter_fetch_as_run:
  "run (Deliver path # (if path = ''/increment'' \<or> path = ''/decrement'' then [PutDone] else []))
       (idle c)
     = Some \<lparr>obj = fst (Counter_fetch c path), inflight = [],
             results = [(0, snd (Counter_fetch c path))], delivered = 1\<rparr>"
  by (simp add: idle_def Counter_fetch_def fetch_before_await_def storage_put_def)

end
